theory Spec2Isabelle
  imports Complex_Main "HOL-Library.Multiset"
begin

chapter \<open>Disposables, bound listeners and the emitter of acedge-http\<close>

text \<open>
  A shallow embedding of \<^verbatim>\<open>src/@internals/disposable.ts\<close>, \<^verbatim>\<open>src/@internals/events.ts\<close>,
  \<^verbatim>\<open>src/@internals/map.ts\<close> (class \<^verbatim>\<open>SetMap\<close>), \<^verbatim>\<open>src/@internals/errors\<close> and
  \<^verbatim>\<open>src/@internals/async.ts\<close>.

  Conventions of the embedding.
  \<^item> Objects are values; every method takes the object's state and returns the new one.
  \<^item> Whatever a method does to the outside world (a console line, a lifecycle hook, the
    error handler, the release of a caller-supplied disposable, the invocation of a
    listener callback) is appended to a trace of \<open>effect\<close>s, in program order.
  \<^item> A \<^verbatim>\<open>throw\<close> is a value: methods that can raise return an \<open>error option\<close>
    (\<open>None\<close>: returned normally) next to the state they leave behind.
  \<^item> Caller-supplied code is known by what it does to the object that runs it. A listener
    callback returns or throws. A disposable that a listener owns returns or throws when it
    is released. A receiver (\<^verbatim>\<open>thisArg\<close>) or such a disposable may be a value on which
    \<^verbatim>\<open>JSON.stringify\<close> raises. Lifecycle hooks and the error handler are recorded in the
    trace and return normally.
  \<^item> Caller-supplied code acts on the emitter only through its return or throw: a callback
    or a disposable that calls a method of the emitter that is running it (releases a
    handle, clears a key, registers a listener) has no counterpart in the embedding, and
    an \<^verbatim>\<open>Event\<close> object is held by one container only.
\<close>

section \<open>Errors (\<^verbatim>\<open>errors/exception.ts\<close>, \<^verbatim>\<open>errors/index.ts\<close>)\<close>

datatype error_code =
    ERR_UNKNOWN_ERROR
  | ERR_ONCE_WAS_CALLED_AGAIN
  | ERR_TOKEN_CANCELLED
  | ERR_RESOURCE_DISPOSED
  | ERR_LISTENER_LEAK
  | ERR_INVALID_ARGUMENT
  | ERR_INVALID_TYPE
  | ERR_LISTENER_REFUSAL

text \<open>The numeric values of \<^verbatim>\<open>enum ERROR_CODE\<close>.\<close>

fun ERROR_CODE :: "error_code \<Rightarrow> int" where
  "ERROR_CODE ERR_UNKNOWN_ERROR = 100"
| "ERROR_CODE ERR_ONCE_WAS_CALLED_AGAIN = 101"
| "ERROR_CODE ERR_TOKEN_CANCELLED = 102"
| "ERROR_CODE ERR_RESOURCE_DISPOSED = 103"
| "ERROR_CODE ERR_LISTENER_LEAK = 104"
| "ERROR_CODE ERR_INVALID_ARGUMENT = 105"
| "ERROR_CODE ERR_INVALID_TYPE = 106"
| "ERROR_CODE ERR_LISTENER_REFUSAL = 107"

text \<open>
  Messages. The interpolated ones keep their arguments instead of a rendered string:
  \<open>Leak_detected name lc tc\<close> is
  \<^verbatim>\<open>[name] potential listener LEAK detected, having lc listeners already. MOST frequent listener (tc):\<close>
  \<open>Refuses name size threshold\<close> is
  \<^verbatim>\<open>[name] REFUSES to accept new listeners because it exceeded its threshold by far (size vs threshold)\<close>,
  and \<open>Refuses_hint name size threshold n\<close> is the same followed by
  \<^verbatim>\<open>. HINT: Stack shows most frequent listener (n-times)\<close>.
\<close>

datatype message =
    Plain string
  | Leak_detected string int int
  | Refuses string int int
  | Refuses_hint string int int int
  | Disposed_listener_called

text \<open>
  A thrown value: an \<^verbatim>\<open>Exception\<close> with its (negated) numeric code, its message and the
  stack it was given through \<^verbatim>\<open>overrideStack\<close>; any other value that caller-supplied code
  or the run-time system throws, known by a label; or the \<^verbatim>\<open>AggregateError\<close> that
  \<^verbatim>\<open>dispose(iterable)\<close> builds from the errors it collected.
\<close>

datatype error =
    Exception (exc_code: int) (exc_message: message) (exc_stack: "string option")
  | Thrown string
  | Aggregate_error "error list"

definition new_Exception :: "message \<Rightarrow> error_code \<Rightarrow> error" where
  "new_Exception m c = Exception (- ERROR_CODE c) m None"

text \<open>With \<^verbatim>\<open>overrideStack\<close>: only a non-empty string replaces the stack.\<close>

definition new_Exception_stack :: "message \<Rightarrow> error_code \<Rightarrow> string \<Rightarrow> error" where
  "new_Exception_stack m c st = Exception (- ERROR_CODE c) m (if st = [] then None else Some st)"

text \<open>\<^verbatim>\<open>err instanceof Exception && err.is(code)\<close> for a code given by name.\<close>

fun exception_is :: "error \<Rightarrow> error_code \<Rightarrow> bool" where
  "exception_is (Exception n m s) c = (n = - ERROR_CODE c)"
| "exception_is (Thrown v) c = False"
| "exception_is (Aggregate_error es) c = False"

section \<open>The trace of effects\<close>

datatype hook =
    OnWillAddFirstListener
  | OnDidAddFirstListener
  | OnDidAddListener
  | OnWillRemoveListener
  | OnDidRemoveLastListener

text \<open>
  The token a callback is handed: the canonical \<^verbatim>\<open>CancellationToken.None\<close>, or the token of
  a cancellation source together with its \<^verbatim>\<open>isCancellationRequested\<close> at that moment.
\<close>

datatype token = Token_None | Source_token bool

type_synonym payload = "string list"

text \<open>
  The receiver a callback is bound to (\<^verbatim>\<open>thisArg\<close>): an object known by its identity, and
  whether \<^verbatim>\<open>JSON.stringify\<close> returns on it (on a circular structure it raises a
  \<^verbatim>\<open>TypeError\<close>).
\<close>

datatype receiver = Receiver (rc_id: nat) (rc_stringifies: bool)

datatype debug_line =
    Dbg_disposed bool
  | Dbg_size int
  | Dbg_entry nat nat

datatype effect =
    Released nat
  | Console_warn message
  | Console_log debug_line
  | Hook hook
  | Handler error
  | Unexpected error
  | Invoked nat "receiver option" payload token

section \<open>Disposables (\<^verbatim>\<open>disposable.ts\<close>)\<close>

text \<open>
  A caller-supplied \<^verbatim>\<open>IDisposable\<close> is known by its identity, a number, and a call of its
  \<^verbatim>\<open>dispose()\<close> is the effect \<open>Released\<close>. The disposables that a \<^verbatim>\<open>DisposableStore\<close>
  holds are opaque and return when released; \<open>dispose_all\<close> releases them in order.
\<close>

definition dispose_all :: "nat list \<Rightarrow> effect list" where
  "dispose_all ds = map Released ds"

text \<open>
  The disposables handed over in a list (\<^verbatim>\<open>disposables\<close> of \<^verbatim>\<open>EventOptions\<close>,
  \<^verbatim>\<open>toDisposeWithEvent\<close> of \<^verbatim>\<open>on\<close> and \<^verbatim>\<open>once\<close>) come with what they do: \<open>di_throws\<close> is the
  value that \<^verbatim>\<open>dispose()\<close> throws, if it throws, and \<open>di_stringifies\<close> says whether
  \<^verbatim>\<open>JSON.stringify\<close> returns on the object.
\<close>

datatype idisposable =
  IDisposable (di_id: nat) (di_throws: "error option") (di_stringifies: bool)

text \<open>
  \<^verbatim>\<open>dispose(iterable)\<close>: every element is released, in order, and what the elements throw
  is collected; afterwards a single error is thrown as it is and several are thrown as one
  \<^verbatim>\<open>AggregateError\<close>.
\<close>

fun dispose_each :: "idisposable list \<Rightarrow> effect list \<times> error list" where
  "dispose_each [] = ([], [])"
| "dispose_each (d # ds) =
     (let (fx, errors) = dispose_each ds
      in (Released (di_id d) # fx,
          (case di_throws d of None \<Rightarrow> errors | Some e \<Rightarrow> e # errors)))"

definition dispose_iterable :: "idisposable list \<Rightarrow> error option \<times> effect list" where
  "dispose_iterable ds =
     (let (fx, errors) = dispose_each ds
      in (if length errors = 1 then Some (hd errors)
          else if length errors > 1 then Some (Aggregate_error errors)
          else None, fx))"

subsection \<open>\<^verbatim>\<open>class DisposableStore\<close>\<close>

record disposable_store =
  st_self :: nat
  st_toDispose :: "nat list"
  st_isDisposed :: bool

definition new_DisposableStore :: "nat \<Rightarrow> disposable_store" where
  "new_DisposableStore i = \<lparr>st_self = i, st_toDispose = [], st_isDisposed = False\<rparr>"

definition store_clear :: "disposable_store \<Rightarrow> disposable_store \<times> effect list" where
  "store_clear s =
     (if st_toDispose s = [] then (s, [])
      else (s\<lparr>st_toDispose := []\<rparr>, dispose_all (st_toDispose s)))"

definition store_dispose :: "disposable_store \<Rightarrow> disposable_store \<times> effect list" where
  "store_dispose s =
     (if st_isDisposed s then (s, [])
      else store_clear (s\<lparr>st_isDisposed := True\<rparr>))"

definition store_disposed_warning :: message where
  "store_disposed_warning =
     Plain ''Trying to add a disposable to a DisposableStore that has already been disposed of. The added object will be leaked!''"

text \<open>
  \<^verbatim>\<open>add(o)\<close>. The first argument is the static flag \<^verbatim>\<open>DISABLE_DISPOSED_WARNING\<close>. The
  set \<^verbatim>\<open>#toDispose\<close> keeps insertion order and no duplicates. The method returns \<open>o\<close>
  itself, which the model leaves out.
\<close>

definition store_add ::
  "bool \<Rightarrow> nat \<Rightarrow> disposable_store \<Rightarrow> error + (disposable_store \<times> effect list)" where
  "store_add disable_warning o' s =
     (if o' = st_self s then Inl (Thrown ''Cannot register a disposable on itself!'')
      else if st_isDisposed s then
        (if \<not> disable_warning then Inr (s, [Console_warn store_disposed_warning])
         else Inr (s, []))
      else Inr (s\<lparr>st_toDispose := (if o' \<in> set (st_toDispose s) then st_toDispose s
                                     else st_toDispose s @ [o'])\<rparr>, []))"

definition store_delete ::
  "nat \<Rightarrow> disposable_store \<Rightarrow> error + (disposable_store \<times> effect list)" where
  "store_delete o' s =
     (if o' = st_self s then Inl (Thrown ''Cannot dispose a disposable on itself!'')
      else Inr (s\<lparr>st_toDispose := removeAll o' (st_toDispose s)\<rparr>, [Released o']))"

definition store_deleteAndLeak :: "nat \<Rightarrow> disposable_store \<Rightarrow> disposable_store" where
  "store_deleteAndLeak o' s =
     (if o' \<in> set (st_toDispose s) then s\<lparr>st_toDispose := removeAll o' (st_toDispose s)\<rparr>
      else s)"

subsection \<open>\<^verbatim>\<open>class Disposable.Disposable\<close>\<close>

text \<open>
  What a \<^verbatim>\<open>Disposable\<close> keeps in \<^verbatim>\<open>#lifecycle\<close>: an opaque disposable, a
  \<^verbatim>\<open>DisposableStore\<close>, or the closure \<^verbatim>\<open>toDisposable(() => dispose(list))\<close> that the
  constructor of \<^verbatim>\<open>Event\<close> registers (\<open>None\<close>: the list is \<^verbatim>\<open>undefined\<close>, and
  \<^verbatim>\<open>dispose(undefined)\<close> does nothing).
\<close>

datatype owned =
    Opaque nat
  | Owned_store disposable_store
  | Dispose_list "idisposable list option"

text \<open>\<^verbatim>\<open>item.dispose()\<close> for such a child: what it throws, if it throws, and its effects.\<close>

fun owned_dispose :: "owned \<Rightarrow> error option \<times> effect list" where
  "owned_dispose (Opaque d) = (None, [Released d])"
| "owned_dispose (Owned_store s) = (None, snd (store_dispose s))"
| "owned_dispose (Dispose_list None) = (None, [])"
| "owned_dispose (Dispose_list (Some ds)) = dispose_iterable ds"

record disposable =
  d_lifecycle :: "owned list"
  d_isDisposed :: bool

definition new_Disposable :: disposable where
  "new_Disposable = \<lparr>d_lifecycle = [], d_isDisposed = False\<rparr>"

text \<open>
  \<^verbatim>\<open>this.#lifecycle.forEach(item => item.dispose())\<close>: the children are released in order
  and the first throw ends the loop.
\<close>

fun dispose_lifecycle :: "owned list \<Rightarrow> error option \<times> effect list" where
  "dispose_lifecycle [] = (None, [])"
| "dispose_lifecycle (t # ts) =
     (case owned_dispose t of
        (Some err, fx) \<Rightarrow> (Some err, fx)
      | (None, fx) \<Rightarrow> (let (r, fx') = dispose_lifecycle ts in (r, fx @ fx')))"

text \<open>
  \<^verbatim>\<open>_clear()\<close> and \<^verbatim>\<open>dispose()\<close>: what is thrown, the object afterwards, the effects.
  \<^verbatim>\<open>#lifecycle.clear()\<close> comes after the loop and is not reached when a child throws; the
  flag \<^verbatim>\<open>#isDisposed\<close> is set before the loop.
\<close>

definition base_clear ::
  "'a disposable_scheme \<Rightarrow> error option \<times> 'a disposable_scheme \<times> effect list" where
  "base_clear d =
     (case dispose_lifecycle (d_lifecycle d) of
        (Some err, fx) \<Rightarrow> (Some err, d, fx)
      | (None, fx) \<Rightarrow> (None, d\<lparr>d_lifecycle := []\<rparr>, fx))"

definition base_dispose ::
  "'a disposable_scheme \<Rightarrow> error option \<times> 'a disposable_scheme \<times> effect list" where
  "base_dispose d =
     (if d_isDisposed d then (None, d, [])
      else base_clear (d\<lparr>d_isDisposed := True\<rparr>))"

definition register_warning :: message where
  "register_warning =
     Plain ''[Disposable] Registering disposable on object that has already been disposed.''"

definition base_register ::
  "owned \<Rightarrow> 'a disposable_scheme \<Rightarrow> error option \<times> 'a disposable_scheme \<times> effect list" where
  "base_register t d =
     (if d_isDisposed d then
        (let (r, fx) = owned_dispose t in (r, d, Console_warn register_warning # fx))
      else (None, d\<lparr>d_lifecycle := d_lifecycle d @ [t]\<rparr>, []))"

section \<open>Cancellation sources\<close>

text \<open>
  Modelled from the spec: the class \<^verbatim>\<open>CancellationTokenSource\<close> and its token
  (\<^verbatim>\<open>src/@internals/cancellation.ts\<close>), which \<^verbatim>\<open>events.ts\<close> and \<^verbatim>\<open>async.ts\<close> import and
  which is not among the sources. The specification gives a source one token whose state is
  the flag \<open>requested\<close>, monotone from false to true; \<^verbatim>\<open>cancel()\<close> on a source whose token is
  already requested is a no-op; \<^verbatim>\<open>dispose(alsoCancel)\<close> optionally cancels first and then
  releases the listener storage. A fresh source is not requested (the repository's own
  cancellation test starts with this). The lazy allocation of the token is not observable
  through the flag and has no counterpart here.
\<close>

record cancellation_source =
  cts_requested :: bool
  cts_disposed :: bool

definition new_CancellationTokenSource :: cancellation_source where
  "new_CancellationTokenSource = \<lparr>cts_requested = False, cts_disposed = False\<rparr>"

definition cts_cancel :: "cancellation_source \<Rightarrow> cancellation_source" where
  "cts_cancel s = (if cts_requested s then s else s\<lparr>cts_requested := True\<rparr>)"

definition cts_dispose :: "bool \<Rightarrow> cancellation_source \<Rightarrow> cancellation_source" where
  "cts_dispose alsoCancel s = (if alsoCancel then cts_cancel s else s)\<lparr>cts_disposed := True\<rparr>"

definition cts_token :: "cancellation_source \<Rightarrow> token" where
  "cts_token s = Source_token (cts_requested s)"

section \<open>Bound listeners (\<^verbatim>\<open>class Event\<close> of \<^verbatim>\<open>events.ts\<close>)\<close>

text \<open>
  A listener callback has an identity (\<^verbatim>\<open>===\<close> on functions compares it) and a behaviour:
  given the payload and the token it either returns (\<open>None\<close>) or throws. Its return value
  is not used anywhere in the emitter and is left out.
\<close>

record callback =
  cb_id :: nat
  cb_run :: "payload \<Rightarrow> token \<Rightarrow> error option"

text \<open>The option \<^verbatim>\<open>disposables?: IDisposable[] | DisposableStore\<close>.\<close>

datatype event_disposables =
    No_disposables
  | Disposable_list "idisposable list"
  | Disposable_store disposable_store

text \<open>\<^verbatim>\<open>type EventOptions\<close>; an absent field is \<open>None\<close>.\<close>

record event_options =
  opt_cancelable :: "bool option"
  opt_once :: "bool option"
  opt_disposables :: event_disposables
  opt_name :: "string option"
  opt_thisArg :: "receiver option"

record event = disposable +
  ev_source :: "cancellation_source option"
  ev_callCount :: nat
  ev_listener :: callback
  ev_options :: "event_options option"

text \<open>\<^verbatim>\<open>this._options?.cancelable !== false\<close> and \<^verbatim>\<open>this._options?.once\<close>.\<close>

definition cancelable_not_false :: "event_options option \<Rightarrow> bool" where
  "cancelable_not_false oo = (case oo of None \<Rightarrow> True | Some opts \<Rightarrow> opt_cancelable opts \<noteq> Some False)"

definition once_set :: "event_options option \<Rightarrow> bool" where
  "once_set oo = (case oo of None \<Rightarrow> False | Some opts \<Rightarrow> opt_once opts = Some True)"

definition thisArg_of :: "event_options option \<Rightarrow> receiver option" where
  "thisArg_of oo = (case oo of None \<Rightarrow> None | Some opts \<Rightarrow> opt_thisArg opts)"

text \<open>
  The constructor. What it registers with \<^verbatim>\<open>super._register\<close> is the store, when
  \<^verbatim>\<open>disposables\<close> is one, and otherwise the closure that disposes of the list.
\<close>

definition constructor_registers :: "event_options option \<Rightarrow> owned" where
  "constructor_registers oo =
     (case oo of
        None \<Rightarrow> Dispose_list None
      | Some opts \<Rightarrow>
          (case opt_disposables opts of
             Disposable_store s \<Rightarrow> Owned_store s
           | Disposable_list ds \<Rightarrow> Dispose_list (Some ds)
           | No_disposables \<Rightarrow> Dispose_list None))"

definition new_Event :: "callback \<Rightarrow> event_options option \<Rightarrow> event" where
  "new_Event l oo =
     \<lparr>d_lifecycle = [constructor_registers oo],
      d_isDisposed = False,
      ev_source = (if cancelable_not_false oo then Some new_CancellationTokenSource else None),
      ev_callCount = 0,
      ev_listener = l,
      ev_options = oo\<rparr>"

definition source_requested :: "cancellation_source option \<Rightarrow> bool" where
  "source_requested so = (case so of None \<Rightarrow> False | Some s \<Rightarrow> cts_requested s)"

text \<open>
  \<^verbatim>\<open>$call(args)\<close>: the thrown value if any, the listener afterwards, and the effects (the
  invocation of the callback, when it is reached). The source that the stale-token branch
  disposes of is dropped with the assignment that follows.
\<close>

definition ev_call :: "payload \<Rightarrow> event \<Rightarrow> error option \<times> event \<times> effect list" where
  "ev_call args e =
     (if d_isDisposed e then
        (Some (new_Exception (Plain ''Cannot call a disposed event listener'') ERR_RESOURCE_DISPOSED), e, [])
      else if once_set (ev_options e) \<and> ev_callCount e > 0 then
        (Some (new_Exception (Plain ''Cannot call \"once\" event more than once'') ERR_ONCE_WAS_CALLED_AGAIN), e, [])
      else
        let e1 = (if source_requested (ev_source e) \<and> cancelable_not_false (ev_options e)
                     \<and> \<not> (once_set (ev_options e) \<and> ev_callCount e > 0)
                  then e\<lparr>ev_source := Some new_CancellationTokenSource\<rparr> else e);
            tok = (case ev_source e1 of None \<Rightarrow> Token_None | Some s \<Rightarrow> cts_token s);
            e2 = e1\<lparr>ev_callCount := ev_callCount e1 + 1\<rparr>
        in (cb_run (ev_listener e2) args tok, e2,
            [Invoked (cb_id (ev_listener e2)) (thisArg_of (ev_options e2)) args tok]))"

definition ev_isCancellationRequested :: "event \<Rightarrow> bool" where
  "ev_isCancellationRequested e = source_requested (ev_source e)"

definition ev_cancelable :: "event \<Rightarrow> bool" where
  "ev_cancelable e = (cancelable_not_false (ev_options e) \<and> \<not> source_requested (ev_source e))"

definition ev_cancel :: "event \<Rightarrow> event" where
  "ev_cancel e =
     (if d_isDisposed e then e
      else e\<lparr>ev_source := map_option cts_cancel (ev_source e)\<rparr>)"

text \<open>
  \<^verbatim>\<open>dispose()\<close>: what is thrown (by a disposable the listener owns), the listener
  afterwards, the effects.
\<close>

definition ev_dispose :: "event \<Rightarrow> error option \<times> event \<times> effect list" where
  "ev_dispose e =
     (let e1 = ev_cancel e;
          e2 = (if \<not> d_isDisposed e1 then e1\<lparr>ev_source := None\<rparr> else e1)
      in base_dispose e2)"

section \<open>Monitors (\<^verbatim>\<open>namespace EventMonitoring\<close>)\<close>

subsection \<open>\<^verbatim>\<open>class Profiling\<close>\<close>

text \<open>
  The stopwatch is kept as the flag \<open>pf_running\<close>; elapsed times are wall-clock readings and
  are not modelled, so \<^verbatim>\<open>stop()\<close> only counts the invocation and clears the stopwatch.
\<close>

record profiling =
  pf_name :: string
  pf_listenerCount :: int
  pf_invocationCount :: nat
  pf_running :: bool

definition new_Profiling :: "string \<Rightarrow> profiling" where
  "new_Profiling n = \<lparr>pf_name = n, pf_listenerCount = 0, pf_invocationCount = 0, pf_running = False\<rparr>"

definition pf_start :: "int \<Rightarrow> profiling \<Rightarrow> profiling" where
  "pf_start lc p = p\<lparr>pf_running := True, pf_listenerCount := lc\<rparr>"

definition pf_stop :: "profiling \<Rightarrow> profiling" where
  "pf_stop p =
     (if pf_running p then p\<lparr>pf_invocationCount := pf_invocationCount p + 1, pf_running := False\<rparr>
      else p)"

subsection \<open>\<^verbatim>\<open>class LeakageMonitor\<close>\<close>

text \<open>
  The error handler a monitor or an emitter reports to: the configured
  \<^verbatim>\<open>onListenerError\<close>, or \<^verbatim>\<open>onUnexpected\<close>, which schedules a rethrow with
  \<^verbatim>\<open>immediate\<close> and returns.
\<close>

datatype error_handler = OnListenerError | OnUnexpected

fun call_handler :: "error_handler \<Rightarrow> error \<Rightarrow> effect" where
  "call_handler OnListenerError err = Handler err"
| "call_handler OnUnexpected err = Unexpected err"

text \<open>
  \<^verbatim>\<open>_stacks\<close> is a \<^verbatim>\<open>Map<string, number>\<close> in insertion order (\<open>None\<close>: not yet
  allocated). The threshold is taken to be a whole number; \<^verbatim>\<open>t / 2\<close> is then a half and the
  countdown a rational.
\<close>

record leakage_monitor =
  lm_errorHandler :: error_handler
  lm_threshold :: int
  lm_name :: string
  lm_stacks :: "(string \<times> int) list option"
  lm_warnCountdown :: rat

definition new_LeakageMonitor :: "error_handler \<Rightarrow> int \<Rightarrow> string \<Rightarrow> leakage_monitor" where
  "new_LeakageMonitor h t n =
     \<lparr>lm_errorHandler = h, lm_threshold = t, lm_name = n, lm_stacks = None, lm_warnCountdown = 0\<rparr>"

text \<open>\<^verbatim>\<open>Map.prototype.set\<close>: an existing key keeps its place.\<close>

fun stacks_set :: "string \<Rightarrow> int \<Rightarrow> (string \<times> int) list \<Rightarrow> (string \<times> int) list" where
  "stacks_set k v [] = [(k, v)]"
| "stacks_set k v ((k', v') # m) = (if k' = k then (k, v) # m else (k', v') # stacks_set k v m)"

text \<open>\<^verbatim>\<open>this._stacks.get(stack.value) || 0\<close>.\<close>

definition stacks_get :: "string \<Rightarrow> (string \<times> int) list \<Rightarrow> int" where
  "stacks_get k m = (case map_of m k of None \<Rightarrow> 0 | Some c \<Rightarrow> c)"

text \<open>The loop of \<^verbatim>\<open>getMostFrequentStack\<close>, with its variables \<open>ts\<close> and \<open>tc\<close>.\<close>

fun most_frequent_loop ::
  "(string \<times> int) list \<Rightarrow> (string \<times> int) option \<Rightarrow> int \<Rightarrow> (string \<times> int) option" where
  "most_frequent_loop [] ts tc = ts"
| "most_frequent_loop ((s, c) # m) ts tc =
     (if ts = None \<or> tc < c then most_frequent_loop m (Some (s, c)) c
      else most_frequent_loop m ts tc)"

definition getMostFrequentStack :: "leakage_monitor \<Rightarrow> (string \<times> int) option" where
  "getMostFrequentStack m =
     (case lm_stacks m of None \<Rightarrow> None | Some st \<Rightarrow> most_frequent_loop st None 0)"

definition lm_dispose :: "leakage_monitor \<Rightarrow> leakage_monitor" where
  "lm_dispose m = m\<lparr>lm_stacks := map_option (\<lambda>_. []) (lm_stacks m)\<rparr>"

text \<open>
  \<^verbatim>\<open>check(stack, lc)\<close>. The boolean says whether a cleanup function is returned (it is the
  closure over \<open>stack\<close> modelled by \<open>lm_cleanup\<close>). The two \<^verbatim>\<open>console.warn\<close> lines are the
  message and the most frequent trace. After the \<^verbatim>\<open>set\<close> the table holds an entry, so
  \<^verbatim>\<open>getMostFrequentStack()\<close> is not null there.
\<close>

definition lm_check ::
  "string \<Rightarrow> int \<Rightarrow> leakage_monitor \<Rightarrow> bool \<times> leakage_monitor \<times> effect list" where
  "lm_check stack lc m =
     (let t = lm_threshold m in
      if t \<le> 0 \<or> lc < t then (False, m, [])
      else
        let st = (case lm_stacks m of None \<Rightarrow> [] | Some st \<Rightarrow> st);
            c = stacks_get stack st;
            m1 = m\<lparr>lm_stacks := Some (stacks_set stack (c + 1) st),
                   lm_warnCountdown := lm_warnCountdown m - 1\<rparr>
        in if lm_warnCountdown m1 \<le> 0 then
             (let m2 = m1\<lparr>lm_warnCountdown := of_int t / 2\<rparr> in
              case getMostFrequentStack m2 of
                None \<Rightarrow> (True, m2, [])
              | Some (ts, tc) \<Rightarrow>
                  (True, m2,
                   [Console_warn (Leak_detected (lm_name m2) lc tc),
                    Console_warn (Plain ts),
                    call_handler (lm_errorHandler m2)
                      (new_Exception (Leak_detected (lm_name m2) lc tc) ERR_LISTENER_LEAK)]))
           else (True, m1, []))"

text \<open>
  The cleanup function that \<^verbatim>\<open>check\<close> returned. \<^verbatim>\<open>this._stacks!\<close> is an unchecked
  assertion: on a table that was never allocated the property access raises a
  \<^verbatim>\<open>TypeError\<close>.
\<close>

definition lm_cleanup :: "string \<Rightarrow> leakage_monitor \<Rightarrow> error option \<times> leakage_monitor" where
  "lm_cleanup stack m =
     (case lm_stacks m of
        None \<Rightarrow> (Some (Thrown ''TypeError''), m)
      | Some st \<Rightarrow> (None, m\<lparr>lm_stacks := Some (stacks_set stack (stacks_get stack st - 1) st)\<rparr>))"

section \<open>\<^verbatim>\<open>class SetMap\<close> (\<^verbatim>\<open>map.ts\<close>) over unique containers\<close>

text \<open>
  Event keys are what the parameter type admits: a string or a symbol (known by its
  identity). The run-time guard \<^verbatim>\<open>typeof event\<close> of \<^verbatim>\<open>on\<close>, \<^verbatim>\<open>once\<close> and \<^verbatim>\<open>off\<close> never
  fires for such a key and has no branch here. An optional key is tested with
  \<^verbatim>\<open>!event\<close>, which holds for \<^verbatim>\<open>undefined\<close> and for the empty string.
\<close>

datatype event_key = Text string | Symbol nat

definition no_event :: "event_key option \<Rightarrow> bool" where
  "no_event ko = (case ko of None \<Rightarrow> True | Some k \<Rightarrow> k = Text [])"

text \<open>
  \<^verbatim>\<open>class UniqueContainer\<close>. Containers are compared by object identity; in the model the
  identity is \<open>uc_id\<close>, the number drawn from the module counter \<^verbatim>\<open>uci\<close>. The listener is
  held by value: each container has an \<^verbatim>\<open>Event\<close> of its own (as every container made for
  a raw callback has), and an \<^verbatim>\<open>Event\<close> object that a caller registers several times is
  outside the embedding.
\<close>

record container =
  uc_id :: nat
  uc_value :: event
  uc_stack :: "string option"

text \<open>
  Whether \<^verbatim>\<open>JSON.stringify(container)\<close> returns. It visits the enumerable fields: the
  identity, the trace, and of the listener its call counter, its source and its options,
  among them the receiver and the list of disposables. The source is an object of the
  missing \<^verbatim>\<open>cancellation.ts\<close> and is taken to serialise; a \<^verbatim>\<open>DisposableStore\<close> has private
  fields only.
\<close>

definition stringifies :: "container \<Rightarrow> bool" where
  "stringifies c =
     (case ev_options (uc_value c) of
        None \<Rightarrow> True
      | Some opts \<Rightarrow>
          (case opt_thisArg opts of None \<Rightarrow> True | Some r \<Rightarrow> rc_stringifies r)
          \<and> (case opt_disposables opts of
                Disposable_list ds \<Rightarrow> list_all di_stringifies ds
              | _ \<Rightarrow> True))"

type_synonym setmap = "(event_key \<times> container list) list"

definition has_id :: "nat \<Rightarrow> container list \<Rightarrow> bool" where
  "has_id i cs = (i \<in> uc_id ` set cs)"

definition setmap_get :: "event_key \<Rightarrow> setmap \<Rightarrow> container list" where
  "setmap_get k m = (case map_of m k of None \<Rightarrow> [] | Some cs \<Rightarrow> cs)"

fun setmap_add :: "event_key \<Rightarrow> container \<Rightarrow> setmap \<Rightarrow> setmap" where
  "setmap_add k c [] = [(k, [c])]"
| "setmap_add k c ((k', cs) # m) =
     (if k' = k then (k, if has_id (uc_id c) cs then cs else cs @ [c]) # m
      else (k', cs) # setmap_add k c m)"

text \<open>
  \<^verbatim>\<open>delete(key, value)\<close>: the container that was removed, if any, and the map. A key whose
  set is empty afterwards is removed.
\<close>

fun setmap_delete :: "event_key \<Rightarrow> nat \<Rightarrow> setmap \<Rightarrow> container option \<times> setmap" where
  "setmap_delete k i [] = (None, [])"
| "setmap_delete k i ((k', cs) # m) =
     (if k' = k then
        (let cs' = filter (\<lambda>c. uc_id c \<noteq> i) cs
         in (find (\<lambda>c. uc_id c = i) cs, if cs' = [] then m else (k, cs') # m))
      else (let (r, m') = setmap_delete k i m in (r, (k', cs) # m')))"

definition setmap_remove :: "event_key \<Rightarrow> setmap \<Rightarrow> setmap" where
  "setmap_remove k m = filter (\<lambda>(k', cs). k' \<noteq> k) m"

text \<open>The values in the order \<^verbatim>\<open>forEach(callback)\<close> visits them.\<close>

definition setmap_values :: "setmap \<Rightarrow> container list" where
  "setmap_values m = concat (map snd m)"

section \<open>\<^verbatim>\<open>class Emitter\<close>\<close>

text \<open>
  \<^verbatim>\<open>interface EmitterOptions\<close>. \<open>eo_hooks\<close> lists the lifecycle hooks that are set and
  \<open>eo_onListenerError\<close> says whether that handler is set. An emitter constructed without
  options has none of them.
\<close>

record emitter_options =
  eo_profName :: "string option"
  eo_noDebug :: bool
  eo_leakWarningThreshold :: "int option"
  eo_hooks :: "hook list"
  eo_onListenerError :: bool

text \<open>
  The emitter, with two fields of the model's own: \<open>em_uci\<close>, the module counter \<^verbatim>\<open>uci\<close>
  as this emitter sees it, and \<open>em_trace\<close>, the effects so far.
\<close>

record emitter =
  em_options :: emitter_options
  em_disposed :: bool
  em_size :: int
  em_disposables :: disposable_store
  em_listeners :: setmap
  em_leakageMonitor :: "leakage_monitor option"
  em_perfMonitor :: "profiling option"
  em_uci :: nat
  em_trace :: "effect list"

definition handler_of :: "emitter_options \<Rightarrow> error_handler" where
  "handler_of opts = (if eo_onListenerError opts then OnListenerError else OnUnexpected)"

text \<open>
  The constructor. \<open>name\<close> is the name the monitor draws from its pool counter and \<open>uci\<close>
  the current value of the container counter.
\<close>

definition new_Emitter :: "emitter_options \<Rightarrow> string \<Rightarrow> nat \<Rightarrow> emitter" where
  "new_Emitter opts name uci =
     \<lparr>em_options = opts,
      em_disposed = False,
      em_size = 0,
      em_disposables = new_DisposableStore 0,
      em_listeners = [],
      em_leakageMonitor =
        (case eo_leakWarningThreshold opts of
           None \<Rightarrow> None
         | Some t \<Rightarrow> if t > 0 then Some (new_LeakageMonitor (handler_of opts) t name) else None),
      em_perfMonitor =
        (case eo_profName opts of
           None \<Rightarrow> None
         | Some n \<Rightarrow> if n = [] then None else Some (new_Profiling n)),
      em_uci = uci,
      em_trace = []\<rparr>"

definition emit :: "effect list \<Rightarrow> emitter \<Rightarrow> emitter" where
  "emit fx em = em\<lparr>em_trace := em_trace em @ fx\<rparr>"

text \<open>\<^verbatim>\<open>this._options?.onX?.(this)\<close>.\<close>

definition run_hook :: "hook \<Rightarrow> emitter \<Rightarrow> emitter" where
  "run_hook h em = (if h \<in> set (eo_hooks (em_options em)) then emit [Hook h] em else em)"

definition checkLeakageBeforeAdd :: "emitter \<Rightarrow> bool \<times> emitter" where
  "checkLeakageBeforeAdd em =
     (if em_disposed em then (False, em)
      else
        case em_leakageMonitor em of
          None \<Rightarrow> (True, em)
        | Some m \<Rightarrow>
            if em_size em > (lm_threshold m)\<^sup>2 then
              (let tuple = (case getMostFrequentStack m of
                              None \<Rightarrow> (''Unknown stack trace'', - 1)
                            | Some t \<Rightarrow> t);
                   err = new_Exception_stack
                           (Refuses_hint (lm_name m) (em_size em) (lm_threshold m) (snd tuple))
                           ERR_LISTENER_REFUSAL (fst tuple)
               in (False,
                   emit ((if \<not> eo_noDebug (em_options em)
                          then [Console_warn (Refuses (lm_name m) (em_size em) (lm_threshold m))]
                          else [])
                         @ [call_handler (handler_of (em_options em)) err]) em))
            else (True, em))"

text \<open>
  What \<^verbatim>\<open>on\<close> and \<^verbatim>\<open>once\<close> are given: a raw callback or an \<^verbatim>\<open>Event\<close>; the options
  \<^verbatim>\<open>cancelable\<close> and \<^verbatim>\<open>toDisposeWithEvent\<close>; and \<open>ao_once\<close>, which \<^verbatim>\<open>on\<close> and \<^verbatim>\<open>once\<close>
  set themselves. The option \<^verbatim>\<open>disposables\<close> only stores the returned handle in a
  collection of the caller, whose later release is the release of the handle; it is not
  modelled.
\<close>

datatype listener_arg = Raw_callback callback | Event_object event

record add_options =
  ao_once :: bool
  ao_cancelable :: "bool option"
  ao_toDisposeWithEvent :: "idisposable list option"

fun key_string :: "event_key \<Rightarrow> string" where
  "key_string (Text s) = s"
| "key_string (Symbol n) = ''Symbol()''"

text \<open>The first statement of \<^verbatim>\<open>_addListener\<close>: a raw callback is wrapped.\<close>

definition wrap_listener ::
  "event_key \<Rightarrow> listener_arg \<Rightarrow> receiver option \<Rightarrow> add_options \<Rightarrow> event" where
  "wrap_listener key l thisArg ao =
     (case l of
        Event_object e \<Rightarrow> e
      | Raw_callback cb \<Rightarrow>
          new_Event cb
            (Some \<lparr>opt_cancelable = Some (case ao_cancelable ao of None \<Rightarrow> False | Some b \<Rightarrow> b),
                   opt_once = Some (ao_once ao),
                   opt_disposables = (case ao_toDisposeWithEvent ao of
                                        None \<Rightarrow> No_disposables
                                      | Some ds \<Rightarrow> Disposable_list ds),
                   opt_name = Some (''event:'' @ key_string key),
                   opt_thisArg = thisArg\<rparr>))"

text \<open>
  \<^verbatim>\<open>Math.ceil(threshold * 0.2)\<close>. For whole thresholds up to three million the
  double-precision product has the same ceiling as the exact one.
\<close>

definition leak_gate :: "int \<Rightarrow> int" where
  "leak_gate t = \<lceil>(of_int t :: rat) * (2 / 10)\<rceil>"

text \<open>
  The registration handle: \<^verbatim>\<open>Disposable.None\<close>, or the closure over the cleanup function
  of the monitor (when \<^verbatim>\<open>check\<close> returned one, for the given trace), the container and
  the key.
\<close>

datatype handle = Handle_none | Handle "string option" nat event_key

text \<open>
  \<^verbatim>\<open>_addListener\<close>. The last argument before the emitter is the trace that
  \<^verbatim>\<open>Stacktrace.create()\<close> would capture at this call.
\<close>

text \<open>
  The leak gate of \<^verbatim>\<open>_addListener\<close>: whether the container gets a trace, whether
  \<^verbatim>\<open>check\<close> returned a cleanup function, and the emitter afterwards.
\<close>

definition leakage_gate :: "string \<Rightarrow> emitter \<Rightarrow> bool \<times> bool \<times> emitter" where
  "leakage_gate stack em =
     (case em_leakageMonitor em of
        None \<Rightarrow> (False, False, em)
      | Some m \<Rightarrow>
          if em_size em \<ge> leak_gate (lm_threshold m) then
            (let (r, m', fx) = lm_check stack (em_size em + 1) m
             in (True, r, emit fx (em\<lparr>em_leakageMonitor := Some m'\<rparr>)))
          else (False, False, em))"

definition addListener ::
  "event_key \<Rightarrow> listener_arg \<Rightarrow> receiver option \<Rightarrow> add_options \<Rightarrow> string \<Rightarrow> emitter
     \<Rightarrow> handle \<times> emitter" where
  "addListener key l thisArg ao stack em =
     (let listener = wrap_listener key l thisArg ao in
      case checkLeakageBeforeAdd em of
        (False, em1) \<Rightarrow> (Handle_none, em1)
      | (True, em1) \<Rightarrow>
          if em_disposed em1 then (Handle_none, em1)
          else
            let cid = em_uci em1;
                em2 = em1\<lparr>em_uci := cid + 1\<rparr>;
                (traced, rmonitor, em3) = leakage_gate stack em2;
                c = \<lparr>uc_id = cid, uc_value = listener,
                     uc_stack = (if traced then Some stack else None)\<rparr>;
                em4 = (if em_size em3 = 0 then run_hook OnWillAddFirstListener em3 else em3);
                em5 = em4\<lparr>em_listeners := setmap_add key c (em_listeners em4),
                          em_size := em_size em4 + 1\<rparr>;
                em6 = (if em_size em5 = 1 then run_hook OnDidAddFirstListener em5 else em5);
                em7 = run_hook OnDidAddListener em6
            in (Handle (if rmonitor then Some stack else None) cid key, em7))"

definition on ::
  "event_key \<Rightarrow> listener_arg \<Rightarrow> receiver option \<Rightarrow> add_options \<Rightarrow> string \<Rightarrow> emitter
     \<Rightarrow> handle \<times> emitter" where
  "on key l thisArg ao stack em = addListener key l thisArg (ao\<lparr>ao_once := False\<rparr>) stack em"

definition once ::
  "event_key \<Rightarrow> listener_arg \<Rightarrow> receiver option \<Rightarrow> add_options \<Rightarrow> string \<Rightarrow> emitter
     \<Rightarrow> handle \<times> emitter" where
  "once key l thisArg ao stack em = addListener key l thisArg (ao\<lparr>ao_once := True\<rparr>) stack em"

text \<open>
  The block that \<^verbatim>\<open>_removeUniqueListener\<close> runs before it throws, unless \<^verbatim>\<open>noDebug\<close>
  is set: two console lines, then one line for every container that is left, which is
  passed to \<^verbatim>\<open>JSON.stringify\<close> first. A container on which \<^verbatim>\<open>JSON.stringify\<close> raises ends
  the block with that \<^verbatim>\<open>TypeError\<close>, before its line is written.
\<close>

fun dump_entries :: "nat \<Rightarrow> container list \<Rightarrow> error option \<times> effect list" where
  "dump_entries i [] = (None, [])"
| "dump_entries i (c # cs) =
     (if stringifies c then
        (let (r, fx) = dump_entries (i + 1) cs in (r, Console_log (Dbg_entry i (uc_id c)) # fx))
      else (Some (Thrown ''TypeError''), []))"

definition debug_dump :: "emitter \<Rightarrow> error option \<times> effect list" where
  "debug_dump em =
     (if eo_noDebug (em_options em) then (None, [])
      else
        let (r, fx) = dump_entries 0 (setmap_values (em_listeners em))
        in (r, Console_log (Dbg_disposed (em_disposed em)) # Console_log (Dbg_size (em_size em)) # fx))"

text \<open>
  The branch of \<^verbatim>\<open>_removeUniqueListener\<close> that found no container to delete: the debug
  block, then \<^verbatim>\<open>throw new Exception(...)\<close> with the message of the branch, unless the
  debug block has thrown already.
\<close>

definition unknown_thrown :: "error \<Rightarrow> emitter \<Rightarrow> error option \<times> emitter" where
  "unknown_thrown exc em =
     (let (r, fx) = debug_dump em
      in (Some (case r of None \<Rightarrow> exc | Some err \<Rightarrow> err), emit fx em))"

text \<open>
  The loop \<^verbatim>\<open>for(const [k] of this._listeners)\<close> of the branch without a key: the keys
  are tried in order until \<^verbatim>\<open>delete\<close> succeeds.
\<close>

fun scan_delete :: "event_key list \<Rightarrow> nat \<Rightarrow> setmap \<Rightarrow> container option \<times> setmap" where
  "scan_delete [] i m = (None, m)"
| "scan_delete (k # ks) i m =
     (case setmap_delete k i m of
        (Some c, m') \<Rightarrow> (Some c, m')
      | (None, m') \<Rightarrow> scan_delete ks i m')"

text \<open>
  The final block \<^verbatim>\<open>if(r) { ... }\<close>, for the container that was removed:
  \<^verbatim>\<open>contained.value.dispose()\<close>, then the decrement and the hook. When the listener's
  \<^verbatim>\<open>dispose()\<close> throws, the decrement is not reached.
\<close>

definition after_removal :: "container \<Rightarrow> emitter \<Rightarrow> error option \<times> emitter" where
  "after_removal c em =
     (let (r, e', fx) = ev_dispose (uc_value c);
          em1 = emit fx em
      in case r of
           Some err \<Rightarrow> (Some err, em1)
         | None \<Rightarrow>
             (let em2 = em1\<lparr>em_size := em_size em1 - 1\<rparr>
              in (None, if em_size em2 = 0 then run_hook OnDidRemoveLastListener em2 else em2)))"

definition unknown_listener :: error where
  "unknown_listener = new_Exception (Plain ''Attempted to dispose an unknown listener'') ERR_UNKNOWN_ERROR"

definition unknown_listener_no_event :: error where
  "unknown_listener_no_event =
     new_Exception (Plain ''Attempted to dispose an unknown listener (no event provided)'') ERR_UNKNOWN_ERROR"

definition removeUniqueListener ::
  "nat \<Rightarrow> event_key option \<Rightarrow> emitter \<Rightarrow> error option \<times> emitter" where
  "removeUniqueListener cid event em =
     (if em_disposed em then (None, em)
      else
        let em1 = run_hook OnWillRemoveListener em in
        if em_size em1 = 0 then (None, em1)
        else
          case (if no_event event then None else event) of
            None \<Rightarrow>
              (case scan_delete (map fst (em_listeners em1)) cid (em_listeners em1) of
                 (Some c, m') \<Rightarrow> after_removal c (em1\<lparr>em_listeners := m'\<rparr>)
               | (None, m') \<Rightarrow> unknown_thrown unknown_listener_no_event (em1\<lparr>em_listeners := m'\<rparr>))
          | Some k \<Rightarrow>
              (case setmap_delete k cid (em_listeners em1) of
                 (Some c, m') \<Rightarrow> after_removal c (em1\<lparr>em_listeners := m'\<rparr>)
               | (None, m') \<Rightarrow> unknown_thrown unknown_listener (em1\<lparr>em_listeners := m'\<rparr>)))"

text \<open>
  \<^verbatim>\<open>dispose()\<close> of a registration handle: the cleanup function of the monitor, if the
  handle has one, then \<^verbatim>\<open>_removeUniqueListener(containedListener, event)\<close>. A handle with a
  cleanup function only exists for an emitter that has a monitor.
\<close>

fun handle_dispose :: "handle \<Rightarrow> emitter \<Rightarrow> error option \<times> emitter" where
  "handle_dispose Handle_none em = (None, em)"
| "handle_dispose (Handle None cid key) em = removeUniqueListener cid (Some key) em"
| "handle_dispose (Handle (Some stack) cid key) em =
     (case em_leakageMonitor em of
        None \<Rightarrow> removeUniqueListener cid (Some key) em
      | Some m \<Rightarrow>
          (case lm_cleanup stack m of
             (Some err, m') \<Rightarrow> (Some err, em\<lparr>em_leakageMonitor := Some m'\<rparr>)
           | (None, m') \<Rightarrow> removeUniqueListener cid (Some key) (em\<lparr>em_leakageMonitor := Some m'\<rparr>)))"

text \<open>\<^verbatim>\<open>listener[kListener]\<close>, after \<^verbatim>\<open>off\<close> has wrapped a raw callback.\<close>

fun kListener :: "listener_arg \<Rightarrow> callback" where
  "kListener (Raw_callback cb) = cb"
| "kListener (Event_object e) = ev_listener e"

definition off :: "event_key \<Rightarrow> listener_arg \<Rightarrow> emitter \<Rightarrow> error option \<times> emitter" where
  "off key l em =
     (case find (\<lambda>uc. cb_id (ev_listener (uc_value uc)) = cb_id (kListener l))
                (setmap_get key (em_listeners em)) of
        None \<Rightarrow> (None, em)
      | Some uc \<Rightarrow> removeUniqueListener (uc_id uc) (Some key) em)"

text \<open>
  \<^verbatim>\<open>$call\<close> mutates the listener inside its container; here the new value is written back
  to the container with that identity.
\<close>

definition update_event :: "nat \<Rightarrow> event \<Rightarrow> setmap \<Rightarrow> setmap" where
  "update_event i e m =
     map (\<lambda>(k, cs). (k, map (\<lambda>c. if uc_id c = i then c\<lparr>uc_value := e\<rparr> else c) cs)) m"

text \<open>
  \<^verbatim>\<open>_deliver\<close>. The error handler is \<^verbatim>\<open>onListenerError || onUnexpected\<close> and so never
  missing: the branch \<^verbatim>\<open>if(!errorHandler)\<close> is dead.
\<close>

definition deliver :: "container \<Rightarrow> payload \<Rightarrow> emitter \<Rightarrow> error option \<times> emitter" where
  "deliver c args em =
     (if em_disposed em then (None, em)
      else
        let (r, e', fx) = ev_call args (uc_value c);
            em1 = emit fx (em\<lparr>em_listeners := update_event (uc_id c) e' (em_listeners em)\<rparr>)
        in case r of
             None \<Rightarrow> (None, em1)
           | Some err \<Rightarrow>
               if exception_is err ERR_ONCE_WAS_CALLED_AGAIN then
                 removeUniqueListener (uc_id c) None em1
               else if exception_is err ERR_RESOURCE_DISPOSED then
                 removeUniqueListener (uc_id c) None
                   (if \<not> eo_noDebug (em_options em1)
                    then emit [Console_warn Disposed_listener_called] em1 else em1)
               else (None, emit [call_handler (handler_of (em_options em1)) err] em1))"

text \<open>
  The loop of \<^verbatim>\<open>fire\<close> over the live set of the key. The list holds the identities that
  were in the set when the loop started, in insertion order; a container that has been
  deleted in the meantime is not visited. An error that leaves \<^verbatim>\<open>_deliver\<close> ends the loop.
\<close>

fun deliver_loop :: "event_key \<Rightarrow> payload \<Rightarrow> nat list \<Rightarrow> emitter \<Rightarrow> error option \<times> emitter" where
  "deliver_loop k args [] em = (None, em)"
| "deliver_loop k args (i # ids) em =
     (case find (\<lambda>c. uc_id c = i) (setmap_get k (em_listeners em)) of
        None \<Rightarrow> deliver_loop k args ids em
      | Some c \<Rightarrow>
          (case deliver c args em of
             (Some err, em') \<Rightarrow> (Some err, em')
           | (None, em') \<Rightarrow> deliver_loop k args ids em'))"

definition fire :: "event_key \<Rightarrow> payload \<Rightarrow> emitter \<Rightarrow> error option \<times> emitter" where
  "fire k args em =
     (if em_disposed em then (None, em)
      else
        let em1 = em\<lparr>em_perfMonitor := map_option (pf_start (em_size em)) (em_perfMonitor em)\<rparr>
        in case (if em_size em1 > 0
                 then deliver_loop k args (map uc_id (setmap_get k (em_listeners em1))) em1
                 else (None, em1)) of
             (Some err, em2) \<Rightarrow> (Some err, em2)
           | (None, em2) \<Rightarrow>
               (None, em2\<lparr>em_perfMonitor := map_option pf_stop (em_perfMonitor em2)\<rparr>))"

definition hasListeners :: "event_key option \<Rightarrow> emitter \<Rightarrow> bool" where
  "hasListeners event em =
     (if em_disposed em then False
      else case (if no_event event then None else event) of
             None \<Rightarrow> em_size em > 0
           | Some k \<Rightarrow> length (setmap_get k (em_listeners em)) > 0)"

definition listenersCount :: "event_key option \<Rightarrow> emitter \<Rightarrow> int" where
  "listenersCount event em =
     (if em_disposed em then 0
      else case (if no_event event then None else event) of
             None \<Rightarrow> em_size em
           | Some k \<Rightarrow> int (length (setmap_get k (em_listeners em))))"

text \<open>
  \<^verbatim>\<open>forEach(e => e.value.dispose())\<close> over a list of containers that are registered: each
  listener is disposed of where it is, in its container, and the first throw ends the
  loop and leaves the registry as it is then.
\<close>

fun dispose_values :: "container list \<Rightarrow> emitter \<Rightarrow> error option \<times> emitter" where
  "dispose_values [] em = (None, em)"
| "dispose_values (c # cs) em =
     (let (r, e', fx) = ev_dispose (uc_value c);
          em1 = emit fx (em\<lparr>em_listeners := update_event (uc_id c) e' (em_listeners em)\<rparr>)
      in case r of
           Some err \<Rightarrow> (Some err, em1)
         | None \<Rightarrow> dispose_values cs em1)"

definition clear :: "event_key option \<Rightarrow> emitter \<Rightarrow> error option \<times> emitter" where
  "clear event em =
     (if em_disposed em then (None, em)
      else
        let em1 = run_hook OnWillRemoveListener em in
        case (if no_event event then None else event) of
          None \<Rightarrow>
            (case dispose_values (setmap_values (em_listeners em1)) em1 of
               (Some err, em2) \<Rightarrow> (Some err, em2)
             | (None, em2) \<Rightarrow>
                 (None, run_hook OnDidRemoveLastListener (em2\<lparr>em_listeners := [], em_size := 0\<rparr>)))
        | Some k \<Rightarrow>
            (let set = setmap_get k (em_listeners em1);
                 size = int (length set)
             in case dispose_values set em1 of
                  (Some err, em2) \<Rightarrow> (Some err, em2)
                | (None, em2) \<Rightarrow>
                    (let em3 = em2\<lparr>em_listeners := setmap_remove k (em_listeners em2),
                                   em_size := em_size em2 - size\<rparr>
                     in (None, if em_size em3 = 0 then run_hook OnDidRemoveLastListener em3
                               else em3))))"

text \<open>\<^verbatim>\<open>dispose()\<close>. The flag is set last, so a throw on the way leaves the emitter live.\<close>

definition dispose :: "emitter \<Rightarrow> error option \<times> emitter" where
  "dispose em =
     (if em_disposed em then (None, em)
      else
        let (st, fx) = store_dispose (em_disposables em);
            em1 = emit fx (em\<lparr>em_disposables := st\<rparr>)
        in case dispose_values (setmap_values (em_listeners em1)) em1 of
             (Some err, em2) \<Rightarrow> (Some err, em2)
           | (None, em2) \<Rightarrow>
               (let em3 = run_hook OnDidRemoveLastListener (em2\<lparr>em_listeners := [], em_size := 0\<rparr>)
                in (None, em3\<lparr>em_leakageMonitor := map_option lm_dispose (em_leakageMonitor em3),
                               em_disposed := True\<rparr>)))"

section \<open>Sequences of operations on an emitter\<close>

text \<open>
  The public operations of an emitter. \<open>Release h\<close> is \<^verbatim>\<open>h.dispose()\<close> on a registration
  handle. \<open>step\<close> performs one operation and keeps the state it leaves behind, whether the
  operation returned or threw.
\<close>

datatype operation =
    On event_key listener_arg "receiver option" add_options string
  | Once event_key listener_arg "receiver option" add_options string
  | Off event_key listener_arg
  | Fire event_key payload
  | Clear "event_key option"
  | Release handle
  | Dispose

fun step :: "emitter \<Rightarrow> operation \<Rightarrow> emitter" where
  "step em (On k l this ao st) = snd (on k l this ao st em)"
| "step em (Once k l this ao st) = snd (once k l this ao st em)"
| "step em (Off k l) = snd (off k l em)"
| "step em (Fire k args) = snd (fire k args em)"
| "step em (Clear event) = snd (clear event em)"
| "step em (Release h) = snd (handle_dispose h em)"
| "step em Dispose = snd (dispose em)"

definition run :: "operation list \<Rightarrow> emitter \<Rightarrow> emitter" where
  "run ops em = foldl step em ops"

text \<open>The Bound Listeners that are currently registered, across all keys.\<close>

definition registered :: "emitter \<Rightarrow> container list" where
  "registered em = setmap_values (em_listeners em)"

text \<open>
  The representation invariant of an emitter: the identities of the registered containers
  are pairwise different and older than the counter, no key is held twice, and a disposed
  emitter holds nothing. (That the count is the number of registered containers is not
  part of it: see \<open>count_agrees\<close>.)
\<close>

definition emitter_inv :: "emitter \<Rightarrow> bool" where
  "emitter_inv em =
     (distinct (map uc_id (registered em))
      \<and> list_all (\<lambda>c. uc_id c < em_uci em) (registered em)
      \<and> distinct (map fst (em_listeners em))
      \<and> (em_disposed em \<longrightarrow> em_listeners em = []))"

text \<open>The count \<^verbatim>\<open>_state.size\<close> is the number of registered containers.\<close>

definition count_agrees :: "emitter \<Rightarrow> bool" where
  "count_agrees em = (em_size em = int (length (registered em)))"

text \<open>
  The search of \<^verbatim>\<open>_removeUniqueListener\<close>, in both of its branches: the container that
  was deleted, if any, and the map afterwards.
\<close>

definition removal_search :: "nat \<Rightarrow> event_key option \<Rightarrow> setmap \<Rightarrow> container option \<times> setmap" where
  "removal_search cid ev m =
     (case (if no_event ev then None else ev) of
        None \<Rightarrow> scan_delete (map fst m) cid m
      | Some k \<Rightarrow> setmap_delete k cid m)"

text \<open>What the release of a handle raises when its container is not in the registry.\<close>

definition unknown_raised :: "event_key \<Rightarrow> emitter \<Rightarrow> error" where
  "unknown_raised k em =
     (if \<not> eo_noDebug (em_options em) \<and> \<not> list_all stringifies (registered em)
      then Thrown ''TypeError''
      else if k = Text [] then unknown_listener_no_event else unknown_listener)"

section \<open>Sequences of operations on a listener\<close>

text \<open>
  What can be done to a Bound Listener short of disposing of it: \<^verbatim>\<open>$call\<close> and \<^verbatim>\<open>cancel\<close>.
  A listener is live when it is the result of such a sequence on a new \<^verbatim>\<open>Event\<close>.
\<close>

datatype event_operation = Call payload | Cancel

fun ev_step :: "event \<Rightarrow> event_operation \<Rightarrow> event" where
  "ev_step e (Call args) = fst (snd (ev_call args e))"
| "ev_step e Cancel = ev_cancel e"

definition ev_run :: "event_operation list \<Rightarrow> event \<Rightarrow> event" where
  "ev_run ops e = foldl ev_step e ops"

section \<open>The cancelable promise (\<^verbatim>\<open>createCancelablePromise\<close> of \<^verbatim>\<open>async.ts\<close>)\<close>

text \<open>
  The value an operation resolves with is either plain or, by \<^verbatim>\<open>isDisposable(value)\<close>, a
  disposable known by its identity. A promise is pending, fulfilled or rejected, and
  \<^verbatim>\<open>resolve\<close> and \<^verbatim>\<open>reject\<close> act on a pending promise only.
\<close>

datatype result_value = Plain_value nat | Disposable_value nat

datatype promise_state = Pending | Fulfilled result_value | Rejected error

definition resolve :: "result_value \<Rightarrow> promise_state \<Rightarrow> promise_state" where
  "resolve v p = (case p of Pending \<Rightarrow> Fulfilled v | _ \<Rightarrow> p)"

definition reject :: "error \<Rightarrow> promise_state \<Rightarrow> promise_state" where
  "reject e p = (case p of Pending \<Rightarrow> Rejected e | _ \<Rightarrow> p)"

text \<open>
  What the closures of \<^verbatim>\<open>createCancelablePromise\<close> share: the source, whether the
  registration \<^verbatim>\<open>sub\<close> of the cancellation listener is still in place, the flag
  \<^verbatim>\<open>isCancelled\<close>, the promise handed out, whether the reaction to the underlying result
  has run (it runs once), and the trace. \<open>br_scheduled\<close> belongs to the source: a delivery
  of the cancellation listener has been scheduled and has not run yet.
\<close>

record bridge =
  br_source :: cancellation_source
  br_sub :: bool
  br_scheduled :: bool
  br_isCancelled :: bool
  br_promise :: promise_state
  br_settled :: bool
  br_trace :: "effect list"


definition operation_cancelled :: error where
  "operation_cancelled =
     new_Exception (Plain ''Asynchronous operation was cancelled'') ERR_TOKEN_CANCELLED"

text \<open>The listener registered with \<^verbatim>\<open>source.token.onCancellationRequested\<close>.\<close>

definition cancellation_listener :: "bridge \<Rightarrow> bridge" where
  "cancellation_listener b =
     b\<lparr>br_isCancelled := True, br_sub := False,
       br_promise := reject operation_cancelled (br_promise b)\<rparr>"

text \<open>
  Modelled from the spec: \<^verbatim>\<open>onCancellationRequested\<close>, \<^verbatim>\<open>cancel()\<close> and \<^verbatim>\<open>dispose()\<close> of
  the missing \<^verbatim>\<open>cancellation.ts\<close>, as \<^verbatim>\<open>createCancelablePromise\<close> uses them. By sections
  3, 4.2 and 5 of the specification a registered listener is invoked exactly once when the
  token goes from not requested to requested, and the invocation is deferred to a later
  scheduling tick, never made inline from \<^verbatim>\<open>cancel()\<close>; \<^verbatim>\<open>cancel()\<close> on a requested token
  is a no-op; \<^verbatim>\<open>dispose()\<close> releases the listener storage and does not throw, and no throw
  is specified for \<^verbatim>\<open>cancel()\<close>. A delivery that \<^verbatim>\<open>cancel()\<close> has scheduled outlives the
  \<^verbatim>\<open>dispose()\<close> of the source that follows it at once in the handle (section 4.5 has the
  promise rejected after it). \<open>source_cancel\<close> is \<^verbatim>\<open>source.cancel()\<close> on the source of
  the bridge and \<open>run_scheduled\<close> is the later tick.
\<close>

definition source_cancel :: "bridge \<Rightarrow> error option \<times> bridge" where
  "source_cancel b =
     (if cts_requested (br_source b) then (None, b)
      else (None, b\<lparr>br_source := cts_cancel (br_source b),
                     br_scheduled := br_scheduled b \<or> br_sub b\<rparr>))"

definition source_dispose :: "bridge \<Rightarrow> error option \<times> bridge" where
  "source_dispose b = (None, b\<lparr>br_source := cts_dispose False (br_source b)\<rparr>)"

definition run_scheduled :: "bridge \<Rightarrow> bridge" where
  "run_scheduled b =
     (if br_scheduled b then cancellation_listener (b\<lparr>br_scheduled := False\<rparr>) else b)"

text \<open>
  The method \<^verbatim>\<open>cancel()\<close> of the returned handle: \<^verbatim>\<open>source.cancel(); source.dispose()\<close>.
\<close>

definition handle_cancel :: "bridge \<Rightarrow> error option \<times> bridge" where
  "handle_cancel b =
     (case source_cancel b of
        (Some err, b1) \<Rightarrow> (Some err, b1)
      | (None, b1) \<Rightarrow> source_dispose b1)"

text \<open>
  The two reactions attached with \<^verbatim>\<open>Promise.resolve(thenable).then(..., ...)\<close>. Whether
  \<^verbatim>\<open>sub.dispose()\<close> withdraws a delivery that is already scheduled is not specified; here
  it does not, and for the promise and the trace it makes no difference, because the
  reaction settles the promise before the delivery could run.
\<close>

definition on_fulfilled :: "result_value \<Rightarrow> bridge \<Rightarrow> bridge" where
  "on_fulfilled v b =
     (if br_settled b then b
      else
        let b1 = b\<lparr>br_settled := True, br_sub := False,
                   br_source := cts_dispose False (br_source b)\<rparr>
        in if \<not> br_isCancelled b1 then b1\<lparr>br_promise := resolve v (br_promise b1)\<rparr>
           else case v of
                  Disposable_value d \<Rightarrow> b1\<lparr>br_trace := br_trace b1 @ [Released d]\<rparr>
                | Plain_value n \<Rightarrow> b1)"

definition on_rejected :: "error \<Rightarrow> bridge \<Rightarrow> bridge" where
  "on_rejected err b =
     (if br_settled b then b
      else b\<lparr>br_settled := True, br_sub := False,
             br_source := cts_dispose False (br_source b),
             br_promise := reject err (br_promise b)\<rparr>)"

text \<open>
  What can happen to a cancelable promise, one job at a time: the handle's \<^verbatim>\<open>cancel()\<close> is
  called, the scheduler reaches its next tick, or the underlying result settles.
\<close>

datatype bridge_event = Cancel_call | Tick | Fulfils result_value | Rejects error

fun bridge_step :: "bridge \<Rightarrow> bridge_event \<Rightarrow> bridge" where
  "bridge_step b Cancel_call = snd (handle_cancel b)"
| "bridge_step b Tick = run_scheduled b"
| "bridge_step b (Fulfils v) = on_fulfilled v b"
| "bridge_step b (Rejects err) = on_rejected err b"

definition bridge_run :: "bridge_event list \<Rightarrow> bridge \<Rightarrow> bridge" where
  "bridge_run evs b = foldl bridge_step b evs"





section \<open>Example values\<close>

text \<open>A callback that returns, one that throws, and the plainest options.\<close>

definition quiet :: "nat \<Rightarrow> callback" where
  "quiet i = \<lparr>cb_id = i, cb_run = (\<lambda>p t. None)\<rparr>"

definition failing :: "nat \<Rightarrow> error \<Rightarrow> callback" where
  "failing i err = \<lparr>cb_id = i, cb_run = (\<lambda>p t. Some err)\<rparr>"

definition plain :: add_options where
  "plain = \<lparr>ao_once = False, ao_cancelable = None, ao_toDisposeWithEvent = None\<rparr>"

definition no_options :: emitter_options where
  "no_options = \<lparr>eo_profName = None, eo_noDebug = False, eo_leakWarningThreshold = None,
                  eo_hooks = [], eo_onListenerError = False\<rparr>"


definition two_listeners :: emitter where
  "two_listeners =
     run [On (Text ''a'') (Raw_callback (quiet 1)) None plain ''s'',
          On (Text ''a'') (Raw_callback (quiet 2)) None plain ''s'']
       (new_Emitter no_options ''001'' 3)"


text \<open>
  A disposable whose \<^verbatim>\<open>dispose()\<close> throws, as in
  \<^verbatim>\<open>toDisposable(() => { throw "boom" })\<close>, and the options that hand it over in
  \<^verbatim>\<open>toDisposeWithEvent\<close>.
\<close>

definition boom :: idisposable where
  "boom = IDisposable 9 (Some (Thrown ''boom'')) True"

definition with_boom :: add_options where
  "with_boom = plain\<lparr>ao_toDisposeWithEvent := Some [boom]\<rparr>"

text \<open>An emitter with one listener, which owns that disposable.\<close>

definition trapped :: emitter where
  "trapped =
     snd (on (Text ''a'') (Raw_callback (quiet 1)) None with_boom ''s''
            (new_Emitter no_options ''001'' 3))"

text \<open>
  An emitter with a \<^verbatim>\<open>once\<close> listener that owns that disposable and a second listener
  on the same key, after one firing.
\<close>

definition trapped_once :: emitter where
  "trapped_once =
     run [Once (Text ''a'') (Raw_callback (quiet 1)) None with_boom ''s'',
          On (Text ''a'') (Raw_callback (quiet 2)) None plain ''s'',
          Fire (Text ''a'') [''x'']]
       (new_Emitter no_options ''001'' 3)"

text \<open>
  Two listeners, the second bound to a receiver on which \<^verbatim>\<open>JSON.stringify\<close> raises (a
  circular object).
\<close>

definition circular :: receiver where
  "circular = Receiver 8 False"

definition two_listeners_circular :: emitter where
  "two_listeners_circular =
     run [On (Text ''a'') (Raw_callback (quiet 1)) None plain ''s'',
          On (Text ''a'') (Raw_callback (quiet 2)) (Some circular) plain ''s'']
       (new_Emitter no_options ''001'' 3)"

section \<open>Reading the trace\<close>

text \<open>The errors handed to the error handler, and the lines of \<^verbatim>\<open>console.warn\<close>, in order.\<close>

fun reported :: "effect list \<Rightarrow> error list" where
  "reported [] = []"
| "reported (Handler e # tr) = e # reported tr"
| "reported (Unexpected e # tr) = e # reported tr"
| "reported (x # tr) = reported tr"

fun warnings :: "effect list \<Rightarrow> message list" where
  "warnings [] = []"
| "warnings (Console_warn w # tr) = w # warnings tr"
| "warnings (x # tr) = warnings tr"

text \<open>The invocations of listener callbacks, in order.\<close>

fun invocations :: "effect list \<Rightarrow> effect list" where
  "invocations [] = []"
| "invocations (Invoked i this args tok # tr) = Invoked i this args tok # invocations tr"
| "invocations (x # tr) = invocations tr"

section \<open>The scenario of seven registrations\<close>

text \<open>
  An emitter whose Leakage Monitor has threshold 3, and seven listeners registered on the
  same key from the same call site (the trace \<open>st\<close>), with any listeners, receivers and
  options.
\<close>

definition seven_registrations ::
  "emitter_options \<Rightarrow> string \<Rightarrow> nat \<Rightarrow> event_key \<Rightarrow> string
     \<Rightarrow> (listener_arg \<times> receiver option \<times> add_options) list \<Rightarrow> emitter" where
  "seven_registrations opts name uci k st ls =
     run (map (\<lambda>(l, this, ao). On k l this ao st) ls)
         (new_Emitter (opts\<lparr>eo_leakWarningThreshold := Some 3\<rparr>) name uci)"

section \<open>Properties\<close>

subsection \<open>The disposable collector after its release\<close>

lemma store_dispose_latched: "st_isDisposed (fst (store_dispose s))"
  by (simp add: store_dispose_def store_clear_def)

text \<open>
  C3, as the code has it. Once a \<^verbatim>\<open>DisposableStore\<close> is disposed, \<^verbatim>\<open>add(d)\<close> does not
  register \<open>d\<close> and does not release it either: the store is left as it was, and the only
  effect is the console warning, which the static flag \<^verbatim>\<open>DISABLE_DISPOSED_WARNING\<close>
  suppresses. (Adding the store to itself raises before the disposed check.) It is the
  base class \<^verbatim>\<open>Disposable\<close> whose \<^verbatim>\<open>_register\<close>, after disposal, warns and releases the
  child at once without keeping it, and returns.
\<close>

theorem C3_add_after_dispose_leaks:
  "(st_isDisposed s \<and> d \<noteq> st_self s \<longrightarrow>
      store_add w d s = Inr (s, if w then [] else [Console_warn store_disposed_warning]))
   \<and> (d_isDisposed b \<longrightarrow>
      base_register (Opaque d) b = (None, b, [Console_warn register_warning, Released d]))"
  by (simp add: store_add_def base_register_def)

theorem C3_add_after_dispose_leaks_witness:
  "st_isDisposed (fst (store_dispose (new_DisposableStore 0)))
   \<and> (7::nat) \<noteq> st_self (fst (store_dispose (new_DisposableStore 0)))
   \<and> store_add False 7 (fst (store_dispose (new_DisposableStore 0)))
       = Inr (\<lparr>st_self = 0, st_toDispose = [], st_isDisposed = True\<rparr>,
              [Console_warn store_disposed_warning])
   \<and> d_isDisposed (fst (snd (base_dispose new_Disposable)))
   \<and> base_register (Opaque 7) (fst (snd (base_dispose new_Disposable)))
       = (None, \<lparr>d_lifecycle = [], d_isDisposed = True\<rparr>,
          [Console_warn register_warning, Released 7])"
  using C3_add_after_dispose_leaks
          [of "fst (store_dispose (new_DisposableStore 0))" 7 False
              "fst (snd (base_dispose new_Disposable))"]
  by (simp add: store_dispose_def store_clear_def new_DisposableStore_def
                base_dispose_def base_clear_def new_Disposable_def)

text \<open>
  The claim as the specification words it fails: the disposable added to a released store
  is not released during that call.
\<close>

theorem C3_counterexample:
  "Released 7 \<notin> set (snd (projr (store_add False 7 (fst (store_dispose (new_DisposableStore 0))))))"
  by (simp add: store_add_def store_dispose_def store_clear_def new_DisposableStore_def
                store_disposed_warning_def)

subsection \<open>The keyed multi-set\<close>

lemma find_filter_mset:
  "distinct (map uc_id cs) \<Longrightarrow> find (\<lambda>c. uc_id c = i) cs = Some c
     \<Longrightarrow> mset cs = add_mset c (mset (filter (\<lambda>c. uc_id c \<noteq> i) cs)) \<and> uc_id c = i"
proof (induction cs)
  case Nil
  then show ?case by simp
next
  case (Cons a cs)
  show ?case
  proof (cases "uc_id a = i")
    case True
    with Cons.prems have "a = c" by simp
    moreover from True Cons.prems have "filter (\<lambda>c. uc_id c \<noteq> i) cs = cs"
      by (auto simp: filter_id_conv image_iff)
    ultimately show ?thesis using True by simp
  next
    case False
    with Cons show ?thesis by simp
  qed
qed

lemma find_None_filter:
  "find (\<lambda>c. uc_id c = i) cs = None \<Longrightarrow> filter (\<lambda>c. uc_id c \<noteq> i) cs = cs"
  by (induction cs) (auto split: if_splits)

lemma values_Cons [simp]: "setmap_values ((k, cs) # m) = cs @ setmap_values m"
  by (simp add: setmap_values_def)

lemma values_Nil [simp]: "setmap_values [] = []"
  by (simp add: setmap_values_def)

lemma values_add:
  "uc_id c \<notin> uc_id ` set (setmap_values m)
     \<Longrightarrow> mset (setmap_values (setmap_add k c m)) = add_mset c (mset (setmap_values m))"
  by (induction m) (auto simp: has_id_def image_Un)

lemma keys_add:
  "map fst (setmap_add k c m) = (if k \<in> set (map fst m) then map fst m else map fst m @ [k])"
  by (induction m) force+

lemma distinct_keys_add: "distinct (map fst m) \<Longrightarrow> distinct (map fst (setmap_add k c m))"
  by (simp add: keys_add)

lemma delete_Some:
  "setmap_delete k i m = (Some c, m') \<Longrightarrow> distinct (map uc_id (setmap_values m))
     \<Longrightarrow> mset (setmap_values m) = add_mset c (mset (setmap_values m')) \<and> uc_id c = i"
proof (induction m arbitrary: m')
  case Nil
  then show ?case by simp
next
  case (Cons a m)
  obtain k' cs where a: "a = (k', cs)" by (cases a)
  show ?case
  proof (cases "k' = k")
    case True
    define cs' where "cs' = filter (\<lambda>c. uc_id c \<noteq> i) cs"
    from Cons.prems a True have f: "find (\<lambda>c. uc_id c = i) cs = Some c"
      and m': "m' = (if cs' = [] then m else (k, cs') # m)"
      by (auto simp add: Let_def cs'_def)
    from Cons.prems a have "distinct (map uc_id cs)" by simp
    from find_filter_mset [OF this f]
    have ms: "mset cs = add_mset c (mset cs')" and i: "uc_id c = i"
      unfolding cs'_def by blast+
    have "mset (setmap_values (a # m)) = mset cs + mset (setmap_values m)"
      using a by simp
    also have "\<dots> = add_mset c (mset cs' + mset (setmap_values m))"
      unfolding ms by simp
    also have "mset cs' + mset (setmap_values m) = mset (setmap_values m')"
      by (cases "cs' = []") (simp_all add: m')
    finally show ?thesis using i by simp
  next
    case False
    with Cons.prems a obtain m'' where d: "setmap_delete k i m = (Some c, m'')"
      and m': "m' = (k', cs) # m''"
      by (auto split: prod.splits)
    from Cons.prems a have "distinct (map uc_id (setmap_values m))" by simp
    from Cons.IH [OF d this] m' a show ?thesis by simp
  qed
qed

lemma delete_None:
  "setmap_delete k i m = (None, m') \<Longrightarrow> setmap_values m' = setmap_values m"
proof (induction m arbitrary: m')
  case Nil
  then show ?case by simp
next
  case (Cons a m)
  obtain k' cs where a: "a = (k', cs)" by (cases a)
  show ?case
  proof (cases "k' = k")
    case True
    let ?cs' = "filter (\<lambda>c. uc_id c \<noteq> i) cs"
    from Cons.prems a True have f: "find (\<lambda>c. uc_id c = i) cs = None"
      and m': "m' = (if ?cs' = [] then m else (k, ?cs') # m)"
      by (auto simp add: Let_def)
    have "?cs' = cs" by (rule find_None_filter [OF f])
    with m' a show ?thesis by (cases "cs = []") simp_all
  next
    case False
    with Cons.prems a obtain m'' where d: "setmap_delete k i m = (None, m'')"
      and m': "m' = (k', cs) # m''"
      by (auto split: prod.splits)
    from Cons.IH [OF d] m' a show ?thesis by simp
  qed
qed

lemma delete_keys:
  "distinct (map fst m) \<Longrightarrow>
     map fst (snd (setmap_delete k i m)) = map fst m
     \<or> map fst (snd (setmap_delete k i m)) = filter (\<lambda>x. x \<noteq> k) (map fst m)"
proof (induction m)
  case Nil
  then show ?case by simp
next
  case (Cons a m)
  obtain k' cs where a: "a = (k', cs)" by (cases a)
  show ?case
  proof (cases "k' = k")
    case True
    from Cons.prems a True have "k \<notin> set (map fst m)" by simp
    then have "filter (\<lambda>x. x \<noteq> k) (map fst m) = map fst m"
      by (force simp: filter_id_conv)
    with a True show ?thesis by (simp add: Let_def)
  next
    case False
    from Cons.prems have "distinct (map fst m)" by simp
    from Cons.IH [OF this] a False show ?thesis
      by (auto split: prod.splits)
  qed
qed

lemma delete_keys_distinct:
  "distinct (map fst m) \<Longrightarrow> distinct (map fst (snd (setmap_delete k i m)))"
  using delete_keys [of m k i] by (auto simp: distinct_filter)


lemma scan_delete_Some:
  "scan_delete ks i m = (Some c, m') \<Longrightarrow> distinct (map uc_id (setmap_values m))
     \<Longrightarrow> mset (setmap_values m) = add_mset c (mset (setmap_values m')) \<and> uc_id c = i"
proof (induction ks arbitrary: m)
  case Nil
  then show ?case by simp
next
  case (Cons k ks)
  obtain r m1 where d: "setmap_delete k i m = (r, m1)" by (cases "setmap_delete k i m")
  show ?case
  proof (cases r)
    case None
    with d have v: "setmap_values m1 = setmap_values m" by (simp add: delete_None)
    from Cons.prems d None have "scan_delete ks i m1 = (Some c, m')" by simp
    from Cons.IH [OF this] Cons.prems(2) v show ?thesis by simp
  next
    case (Some c')
    with Cons.prems d have "c' = c" "m1 = m'" by simp_all
    with d Some Cons.prems(2) show ?thesis by (simp add: delete_Some)
  qed
qed

lemma scan_delete_None:
  "scan_delete ks i m = (None, m') \<Longrightarrow> setmap_values m' = setmap_values m"
proof (induction ks arbitrary: m)
  case Nil
  then show ?case by simp
next
  case (Cons k ks)
  obtain r m1 where d: "setmap_delete k i m = (r, m1)" by (cases "setmap_delete k i m")
  with Cons.prems have r: "r = None" by (cases r) simp_all
  with d have v: "setmap_values m1 = setmap_values m" by (simp add: delete_None)
  from Cons.prems d r have "scan_delete ks i m1 = (None, m')" by simp
  from Cons.IH [OF this] v show ?case by simp
qed

lemma scan_delete_keys_distinct:
  "distinct (map fst m) \<Longrightarrow> distinct (map fst (snd (scan_delete ks i m)))"
proof (induction ks arbitrary: m)
  case Nil
  then show ?case by simp
next
  case (Cons k ks)
  obtain r m1 where d: "setmap_delete k i m = (r, m1)" by (cases "setmap_delete k i m")
  from delete_keys_distinct [OF Cons.prems, of k i] d have dm: "distinct (map fst m1)" by simp
  show ?case
  proof (cases r)
    case None
    with d Cons.IH [OF dm] show ?thesis by simp
  next
    case (Some c)
    with d dm show ?thesis by simp
  qed
qed

text \<open>What the removal of one container means for the identities.\<close>

lemma removed_ids:
  assumes "mset (setmap_values m) = add_mset c (mset (setmap_values m'))"
    and "distinct (map uc_id (setmap_values m))"
  shows "length (setmap_values m) = Suc (length (setmap_values m'))"
    and "distinct (map uc_id (setmap_values m'))"
    and "set (setmap_values m') \<subseteq> set (setmap_values m)"
    and "uc_id c \<notin> uc_id ` set (setmap_values m')"
proof -
  from assms(1) have e: "mset (setmap_values m) = mset (c # setmap_values m')" by simp
  from e show "length (setmap_values m) = Suc (length (setmap_values m'))"
    by (metis length_Cons mset_eq_length)
  from e have "mset (map uc_id (setmap_values m)) = mset (map uc_id (c # setmap_values m'))"
    by (metis mset_map)
  with assms(2) have "distinct (map uc_id (c # setmap_values m'))"
    by (metis mset_eq_imp_distinct_iff)
  then show "distinct (map uc_id (setmap_values m'))"
    and "uc_id c \<notin> uc_id ` set (setmap_values m')" by simp_all
  from e have "set (setmap_values m) = set (c # setmap_values m')" by (rule mset_eq_setD)
  then show "set (setmap_values m') \<subseteq> set (setmap_values m)" by auto
qed

lemma values_remove:
  "distinct (map fst m) \<Longrightarrow>
     mset (setmap_values m) = mset (setmap_get k m) + mset (setmap_values (setmap_remove k m))"
proof (induction m)
  case Nil
  then show ?case by (simp add: setmap_get_def setmap_remove_def)
next
  case (Cons a m)
  obtain k' cs where a: "a = (k', cs)" by (cases a)
  show ?case
  proof (cases "k' = k")
    case True
    with Cons.prems a have "k \<notin> fst ` set m" by simp
    then have "setmap_remove k m = m" by (force simp: setmap_remove_def filter_id_conv)
    with a True show ?thesis by (simp add: setmap_get_def setmap_remove_def)
  next
    case False
    from Cons.prems have "distinct (map fst m)" by simp
    from Cons.IH [OF this] a False show ?thesis
      by (simp add: setmap_get_def setmap_remove_def)
  qed
qed

lemma keys_remove: "distinct (map fst m) \<Longrightarrow> distinct (map fst (setmap_remove k m))"
  by (simp add: setmap_remove_def distinct_map_filter)

lemma keys_update_event [simp]: "map fst (update_event i e m) = map fst m"
  by (induction m) (auto simp: update_event_def)

lemma ids_update_event [simp]:
  "map uc_id (setmap_values (update_event i e m)) = map uc_id (setmap_values m)"
proof (induction m)
  case Nil
  then show ?case by (simp add: update_event_def)
next
  case (Cons a m)
  obtain k cs where a: "a = (k, cs)" by (cases a)
  have "map uc_id (map (\<lambda>c. if uc_id c = i then c\<lparr>uc_value := e\<rparr> else c) cs) = map uc_id cs"
    by (induction cs) auto
  with Cons a show ?case by (simp add: update_event_def)
qed


lemma emit_fields [simp]:
  "em_size (emit fx em) = em_size em"
  "em_listeners (emit fx em) = em_listeners em"
  "em_uci (emit fx em) = em_uci em"
  "em_disposed (emit fx em) = em_disposed em"
  "em_options (emit fx em) = em_options em"
  "em_leakageMonitor (emit fx em) = em_leakageMonitor em"
  "em_perfMonitor (emit fx em) = em_perfMonitor em"
  "em_disposables (emit fx em) = em_disposables em"
  "em_trace (emit fx em) = em_trace em @ fx"
  by (simp_all add: emit_def)

lemma run_hook_fields [simp]:
  "em_size (run_hook h em) = em_size em"
  "em_listeners (run_hook h em) = em_listeners em"
  "em_uci (run_hook h em) = em_uci em"
  "em_disposed (run_hook h em) = em_disposed em"
  "em_options (run_hook h em) = em_options em"
  "em_leakageMonitor (run_hook h em) = em_leakageMonitor em"
  "em_perfMonitor (run_hook h em) = em_perfMonitor em"
  "em_disposables (run_hook h em) = em_disposables em"
  by (simp_all add: run_hook_def)

lemma inv_fields:
  "em_listeners a = em_listeners b \<Longrightarrow> em_uci a = em_uci b \<Longrightarrow> em_disposed a = em_disposed b
     \<Longrightarrow> emitter_inv a = emitter_inv b"
  by (simp add: emitter_inv_def registered_def)

text \<open>The invariant reads the registry through the identities and the keys only.\<close>

lemma inv_by_ids:
  "emitter_inv em \<longleftrightarrow>
     distinct (map uc_id (registered em))
     \<and> (\<forall>i \<in> set (map uc_id (registered em)). i < em_uci em)
     \<and> distinct (map fst (em_listeners em))
     \<and> (em_disposed em \<longrightarrow> em_listeners em = [])"
  by (auto simp add: emitter_inv_def list_all_iff)

lemma update_event_Nil [simp]: "update_event i e m = [] \<longleftrightarrow> m = []"
  by (simp add: update_event_def)

lemma inv_update_event:
  "emitter_inv (em\<lparr>em_listeners := update_event i e (em_listeners em)\<rparr>) = emitter_inv em"
  by (simp add: inv_by_ids registered_def)

lemma checkLeakage_fields [simp]:
  "em_size (snd (checkLeakageBeforeAdd em)) = em_size em"
  "em_listeners (snd (checkLeakageBeforeAdd em)) = em_listeners em"
  "em_uci (snd (checkLeakageBeforeAdd em)) = em_uci em"
  "em_disposed (snd (checkLeakageBeforeAdd em)) = em_disposed em"
  "em_options (snd (checkLeakageBeforeAdd em)) = em_options em"
  "em_leakageMonitor (snd (checkLeakageBeforeAdd em)) = em_leakageMonitor em"
  "em_perfMonitor (snd (checkLeakageBeforeAdd em)) = em_perfMonitor em"
  by (simp_all add: checkLeakageBeforeAdd_def Let_def split: option.splits)

lemma checkLeakage_passed:
  "fst (checkLeakageBeforeAdd em) \<Longrightarrow> \<not> em_disposed em \<and> snd (checkLeakageBeforeAdd em) = em"
  by (auto simp add: checkLeakageBeforeAdd_def Let_def split: option.splits if_splits)

lemma addListener_refused:
  "\<not> fst (checkLeakageBeforeAdd em) \<Longrightarrow>
     addListener k l t ao st em = (Handle_none, snd (checkLeakageBeforeAdd em))"
  by (cases "checkLeakageBeforeAdd em") (simp add: addListener_def)

lemma leakage_gate_fields [simp]:
  "em_size (snd (snd (leakage_gate st em))) = em_size em"
  "em_listeners (snd (snd (leakage_gate st em))) = em_listeners em"
  "em_uci (snd (snd (leakage_gate st em))) = em_uci em"
  "em_disposed (snd (snd (leakage_gate st em))) = em_disposed em"
  "em_options (snd (snd (leakage_gate st em))) = em_options em"
  "em_perfMonitor (snd (snd (leakage_gate st em))) = em_perfMonitor em"
  by (simp_all add: leakage_gate_def Let_def split: option.splits prod.splits)

lemma addListener_accepted:
  assumes "fst (checkLeakageBeforeAdd em)"
  shows "\<exists>rm stk em'.
           addListener k l t ao st em = (Handle rm (em_uci em) k, em')
           \<and> em_size em' = em_size em + 1
           \<and> em_listeners em' =
               setmap_add k \<lparr>uc_id = em_uci em, uc_value = wrap_listener k l t ao, uc_stack = stk\<rparr>
                 (em_listeners em)
           \<and> em_uci em' = em_uci em + 1
           \<and> em_disposed em' = False
           \<and> em_options em' = em_options em"
proof -
  from checkLeakage_passed [OF assms]
  have nd: "\<not> em_disposed em" and c: "checkLeakageBeforeAdd em = (True, em)"
    using assms by (simp_all add: prod_eq_iff)
  obtain tr rm em3 where g: "leakage_gate st (em\<lparr>em_uci := Suc (em_uci em)\<rparr>) = (tr, rm, em3)"
    by (cases "leakage_gate st (em\<lparr>em_uci := Suc (em_uci em)\<rparr>)") auto
  have f: "em_size em3 = em_size em" "em_listeners em3 = em_listeners em"
    "em_uci em3 = em_uci em + 1" "em_disposed em3 = em_disposed em"
    "em_options em3 = em_options em"
    using leakage_gate_fields [of st "em\<lparr>em_uci := Suc (em_uci em)\<rparr>"]
    unfolding g by simp_all
  show ?thesis
    using nd f by (auto simp add: addListener_def c g Let_def)
qed

lemma inv_addListener:
  assumes "emitter_inv em"
  shows "emitter_inv (snd (addListener k l t ao st em))"
proof (cases "fst (checkLeakageBeforeAdd em)")
  case False
  have "emitter_inv (snd (checkLeakageBeforeAdd em)) = emitter_inv em"
    by (rule inv_fields) simp_all
  with assms False show ?thesis by (simp add: addListener_refused)
next
  case True
  from addListener_accepted [OF True, of k l t ao st]
  obtain rm stk em' where r: "addListener k l t ao st em = (Handle rm (em_uci em) k, em')"
    and sz: "em_size em' = em_size em + 1"
    and ls: "em_listeners em' =
               setmap_add k \<lparr>uc_id = em_uci em, uc_value = wrap_listener k l t ao, uc_stack = stk\<rparr>
                 (em_listeners em)"
    and u: "em_uci em' = em_uci em + 1"
    and d: "em_disposed em' = False"
    by blast
  let ?c = "\<lparr>uc_id = em_uci em, uc_value = wrap_listener k l t ao, uc_stack = stk\<rparr>"
  from assms have lt: "\<forall>c \<in> set (setmap_values (em_listeners em)). uc_id c < em_uci em"
    by (simp add: emitter_inv_def registered_def list_all_iff)
  then have fresh: "uc_id ?c \<notin> uc_id ` set (setmap_values (em_listeners em))" by auto
  from values_add [OF fresh, of k]
  have ms: "mset (setmap_values (em_listeners em')) = mset (?c # setmap_values (em_listeners em))"
    by (simp add: ls)
  then have len: "length (setmap_values (em_listeners em')) = Suc (length (setmap_values (em_listeners em)))"
    by (metis length_Cons mset_eq_length)
  from ms have "mset (map uc_id (setmap_values (em_listeners em')))
                = mset (map uc_id (?c # setmap_values (em_listeners em)))"
    by (metis mset_map)
  moreover from assms fresh have "distinct (map uc_id (?c # setmap_values (em_listeners em)))"
    by (simp add: emitter_inv_def registered_def)
  ultimately have dist: "distinct (map uc_id (setmap_values (em_listeners em')))"
    by (metis mset_eq_imp_distinct_iff)
  from ms have "set (setmap_values (em_listeners em')) = set (?c # setmap_values (em_listeners em))"
    by (rule mset_eq_setD)
  with lt have lt': "\<forall>c \<in> set (setmap_values (em_listeners em')). uc_id c < em_uci em'"
    by (auto simp: u)
  from assms have "distinct (map fst (em_listeners em'))"
    by (simp add: ls emitter_inv_def distinct_keys_add)
  with assms len dist lt' sz d have "emitter_inv em'"
    by (simp add: emitter_inv_def registered_def list_all_iff)
  with r show ?thesis by simp
qed


lemma after_removal_fields [simp]:
  "em_listeners (snd (after_removal c em)) = em_listeners em"
  "em_uci (snd (after_removal c em)) = em_uci em"
  "em_disposed (snd (after_removal c em)) = em_disposed em"
  "em_options (snd (after_removal c em)) = em_options em"
  "em_leakageMonitor (snd (after_removal c em)) = em_leakageMonitor em"
  "em_perfMonitor (snd (after_removal c em)) = em_perfMonitor em"
  by (simp_all add: after_removal_def Let_def split: prod.splits option.splits)

lemma after_removal_size:
  "em_size (snd (after_removal c em))
     = (if fst (after_removal c em) = None then em_size em - 1 else em_size em)"
  by (simp add: after_removal_def Let_def split: prod.splits option.splits)

lemma unknown_thrown_fields [simp]:
  "em_listeners (snd (unknown_thrown exc em)) = em_listeners em"
  "em_uci (snd (unknown_thrown exc em)) = em_uci em"
  "em_disposed (snd (unknown_thrown exc em)) = em_disposed em"
  "em_size (snd (unknown_thrown exc em)) = em_size em"
  "em_options (snd (unknown_thrown exc em)) = em_options em"
  "em_leakageMonitor (snd (unknown_thrown exc em)) = em_leakageMonitor em"
  "em_perfMonitor (snd (unknown_thrown exc em)) = em_perfMonitor em"
  by (simp_all add: unknown_thrown_def Let_def split: prod.splits)

lemma unknown_thrown_result:
  "fst (unknown_thrown exc em) = Some (case fst (debug_dump em) of None \<Rightarrow> exc | Some err \<Rightarrow> err)"
  by (simp add: unknown_thrown_def Let_def split: prod.splits)

lemma inv_removed:
  assumes inv: "emitter_inv em"
    and ms: "mset (setmap_values (em_listeners em)) = add_mset c (mset (setmap_values m'))"
    and keys: "distinct (map fst m')"
    and live: "\<not> em_disposed em'"
    and ls: "em_listeners em' = m'"
    and u: "em_uci em' = em_uci em"
  shows "emitter_inv em'"
proof -
  from inv have d: "distinct (map uc_id (setmap_values (em_listeners em)))"
    by (simp add: emitter_inv_def registered_def)
  note r = removed_ids [OF ms d]
  from inv r(3) have "\<forall>c \<in> set (setmap_values m'). uc_id c < em_uci em"
    by (auto simp: emitter_inv_def registered_def list_all_iff)
  with inv r(2) keys live ls u show ?thesis
    by (simp add: emitter_inv_def registered_def list_all_iff)
qed

lemma inv_same_values:
  assumes inv: "emitter_inv em"
    and vs: "setmap_values (em_listeners em') = setmap_values (em_listeners em)"
    and keys: "distinct (map fst (em_listeners em'))"
    and live: "\<not> em_disposed em'"
    and u: "em_uci em' = em_uci em"
  shows "emitter_inv em'"
  using assms by (simp add: emitter_inv_def registered_def)

text \<open>The outcomes of \<open>removeUniqueListener\<close>.\<close>

lemma removeUniqueListener_disposed:
  "em_disposed em \<Longrightarrow> removeUniqueListener cid ev em = (None, em)"
  by (simp add: removeUniqueListener_def)

lemma removeUniqueListener_empty:
  "\<not> em_disposed em \<Longrightarrow> em_size em = 0
     \<Longrightarrow> removeUniqueListener cid ev em = (None, run_hook OnWillRemoveListener em)"
  by (simp add: removeUniqueListener_def Let_def)

lemma removeUniqueListener_found:
  "\<not> em_disposed em \<Longrightarrow> em_size em \<noteq> 0 \<Longrightarrow> removal_search cid ev (em_listeners em) = (Some c, m')
     \<Longrightarrow> removeUniqueListener cid ev em
           = after_removal c ((run_hook OnWillRemoveListener em)\<lparr>em_listeners := m'\<rparr>)"
  by (auto simp add: removeUniqueListener_def removal_search_def Let_def split: option.splits)

lemma removeUniqueListener_missing:
  "\<not> em_disposed em \<Longrightarrow> em_size em \<noteq> 0 \<Longrightarrow> removal_search cid ev (em_listeners em) = (None, m')
     \<Longrightarrow> removeUniqueListener cid ev em
           = unknown_thrown (if no_event ev then unknown_listener_no_event else unknown_listener)
               ((run_hook OnWillRemoveListener em)\<lparr>em_listeners := m'\<rparr>)"
  by (auto simp add: removeUniqueListener_def removal_search_def Let_def no_event_def
           split: option.splits)

lemma removal_search_Some:
  "removal_search i ev m = (Some c, m') \<Longrightarrow> distinct (map uc_id (setmap_values m))
     \<Longrightarrow> mset (setmap_values m) = add_mset c (mset (setmap_values m')) \<and> uc_id c = i"
  by (auto simp: removal_search_def scan_delete_Some delete_Some split: option.splits if_splits)

lemma removal_search_None:
  "removal_search i ev m = (None, m') \<Longrightarrow> setmap_values m' = setmap_values m"
  by (auto simp: removal_search_def scan_delete_None delete_None split: option.splits if_splits)

lemma removal_search_keys:
  "distinct (map fst m) \<Longrightarrow> distinct (map fst (snd (removal_search i ev m)))"
  by (auto simp: removal_search_def scan_delete_keys_distinct delete_keys_distinct split: option.splits)

lemma inv_removeUniqueListener:
  assumes inv: "emitter_inv em"
  shows "emitter_inv (snd (removeUniqueListener cid ev em))"
proof (cases "em_disposed em \<or> em_size em = 0")
  case True
  have "emitter_inv (run_hook OnWillRemoveListener em) = emitter_inv em"
    by (rule inv_fields) simp_all
  with True inv show ?thesis
    by (cases "em_disposed em")
       (simp_all add: removeUniqueListener_disposed removeUniqueListener_empty)
next
  case False
  then have live: "\<not> em_disposed em" and ne: "em_size em \<noteq> 0" by simp_all
  obtain r m' where s: "removal_search cid ev (em_listeners em) = (r, m')"
    by (cases "removal_search cid ev (em_listeners em)")
  from inv have dk: "distinct (map fst (em_listeners em))"
    and di: "distinct (map uc_id (setmap_values (em_listeners em)))"
    by (simp_all add: emitter_inv_def registered_def)
  from removal_search_keys [OF dk, of cid ev] s have dk': "distinct (map fst m')" by simp
  let ?em1 = "(run_hook OnWillRemoveListener em)\<lparr>em_listeners := m'\<rparr>"
  show ?thesis
  proof (cases r)
    case None
    with s have v: "setmap_values m' = setmap_values (em_listeners em)"
      by (simp add: removal_search_None)
    have "emitter_inv (snd (unknown_thrown x ?em1))" for x
      by (rule inv_same_values [OF inv]) (simp_all add: v dk' live)
    with removeUniqueListener_missing [OF live ne] s None show ?thesis by simp
  next
    case (Some c)
    with s removal_search_Some di
    have ms: "mset (setmap_values (em_listeners em)) = add_mset c (mset (setmap_values m'))"
      by blast
    have "emitter_inv (snd (after_removal c ?em1))"
      by (rule inv_removed [OF inv ms dk']) (simp_all add: live)
    with removeUniqueListener_found [OF live ne] s Some show ?thesis by simp
  qed
qed

lemma inv_handle_dispose:
  assumes "emitter_inv em"
  shows "emitter_inv (snd (handle_dispose h em))"
proof (cases h)
  case Handle_none
  with assms show ?thesis by simp
next
  case (Handle rm cid k)
  show ?thesis
  proof (cases rm)
    case None
    with Handle assms show ?thesis by (simp add: inv_removeUniqueListener)
  next
    case (Some stack)
    show ?thesis
    proof (cases "em_leakageMonitor em")
      case None
      with Handle Some assms show ?thesis by (simp add: inv_removeUniqueListener)
    next
      case (Some m)
      obtain r m' where c: "lm_cleanup stack m = (r, m')" by (cases "lm_cleanup stack m")
      have i: "emitter_inv (em\<lparr>em_leakageMonitor := Some m'\<rparr>) = emitter_inv em"
        by (rule inv_fields) simp_all
      with assms have "emitter_inv (em\<lparr>em_leakageMonitor := Some m'\<rparr>)" by simp
      with Handle \<open>rm = Some stack\<close> Some c show ?thesis
        by (cases r) (simp_all add: inv_removeUniqueListener)
    qed
  qed
qed

lemma inv_off: "emitter_inv em \<Longrightarrow> emitter_inv (snd (off k l em))"
  by (simp add: off_def inv_removeUniqueListener split: option.splits)

text \<open>
  Disposing of listeners where they are changes no identity, no key, and nothing of the
  emitter besides the registry and the trace.
\<close>

lemma dispose_values_fields [simp]:
  "map uc_id (setmap_values (em_listeners (snd (dispose_values cs em))))
     = map uc_id (setmap_values (em_listeners em))"
  "map fst (em_listeners (snd (dispose_values cs em))) = map fst (em_listeners em)"
  "em_uci (snd (dispose_values cs em)) = em_uci em"
  "em_disposed (snd (dispose_values cs em)) = em_disposed em"
  "em_size (snd (dispose_values cs em)) = em_size em"
  "em_options (snd (dispose_values cs em)) = em_options em"
  "em_leakageMonitor (snd (dispose_values cs em)) = em_leakageMonitor em"
  "em_perfMonitor (snd (dispose_values cs em)) = em_perfMonitor em"
  "em_disposables (snd (dispose_values cs em)) = em_disposables em"
  by (induction cs arbitrary: em; simp add: Let_def split: prod.splits option.splits)+

lemma dispose_values_empty:
  "em_listeners (snd (dispose_values cs em)) = [] \<longleftrightarrow> em_listeners em = []"
  using dispose_values_fields(2) [of cs em] by (metis map_is_Nil_conv)

lemma inv_dispose_values:
  "emitter_inv (snd (dispose_values cs em)) = emitter_inv em"
  by (simp add: inv_by_ids registered_def dispose_values_empty)

lemma inv_remove_key:
  assumes inv: "emitter_inv em" and live: "\<not> em_disposed em'"
    and ls: "em_listeners em' = setmap_remove k (em_listeners em)"
    and u: "em_uci em' = em_uci em"
  shows "emitter_inv em'"
proof -
  let ?m = "em_listeners em"
  from inv have dk: "distinct (map fst ?m)"
    and di: "distinct (map uc_id (setmap_values ?m))"
    and lt: "\<forall>c \<in> set (setmap_values ?m). uc_id c < em_uci em"
    by (simp_all add: emitter_inv_def registered_def list_all_iff)
  note ms = values_remove [OF dk, of k]
  from ms have "mset (map uc_id (setmap_values ?m))
      = mset (map uc_id (setmap_get k ?m @ setmap_values (setmap_remove k ?m)))"
    by (metis mset_append mset_map)
  with di have "distinct (map uc_id (setmap_get k ?m @ setmap_values (setmap_remove k ?m)))"
    by (metis mset_eq_imp_distinct_iff)
  then have di': "distinct (map uc_id (setmap_values (setmap_remove k ?m)))" by simp
  from ms have "set (setmap_values ?m)
      = set (setmap_get k ?m @ setmap_values (setmap_remove k ?m))"
    by (metis mset_append mset_eq_setD)
  with lt have lt': "\<forall>c \<in> set (setmap_values (setmap_remove k ?m)). uc_id c < em_uci em"
    by auto
  from live di' lt' keys_remove [OF dk, of k] ls u show ?thesis
    by (simp add: emitter_inv_def registered_def list_all_iff)
qed

lemma inv_clear:
  assumes inv: "emitter_inv em"
  shows "emitter_inv (snd (clear ev em))"
proof (cases "em_disposed em")
  case True
  with inv show ?thesis by (simp add: clear_def)
next
  case live: False
  let ?em1 = "run_hook OnWillRemoveListener em"
  have "emitter_inv ?em1 = emitter_inv em" by (rule inv_fields) simp_all
  with inv have i1: "emitter_inv ?em1" by simp
  show ?thesis
  proof (cases "if no_event ev then None else ev")
    case None
    obtain r em2 where d: "dispose_values (setmap_values (em_listeners ?em1)) ?em1 = (r, em2)"
      by (cases "dispose_values (setmap_values (em_listeners ?em1)) ?em1")
    from inv_dispose_values [of "setmap_values (em_listeners ?em1)" ?em1] d i1
    have i2: "emitter_inv em2" by simp
    show ?thesis
    proof (cases r)
      case (Some err)
      with None live d i2 show ?thesis by (simp add: clear_def Let_def)
    next
      case no: None
      with None live d show ?thesis
        by (simp add: clear_def Let_def emitter_inv_def registered_def)
    qed
  next
    case (Some k)
    obtain r em2 where d: "dispose_values (setmap_get k (em_listeners ?em1)) ?em1 = (r, em2)"
      by (cases "dispose_values (setmap_get k (em_listeners ?em1)) ?em1")
    from inv_dispose_values [of "setmap_get k (em_listeners ?em1)" ?em1] d i1
    have i2: "emitter_inv em2" by simp
    have "em_disposed (snd (dispose_values (setmap_get k (em_listeners ?em1)) ?em1)) = em_disposed em"
      by simp
    with d live have l2: "\<not> em_disposed em2" by simp
    show ?thesis
    proof (cases r)
      case (Some err)
      with \<open>(if no_event ev then None else ev) = Some k\<close> live d i2 show ?thesis
        by (simp add: clear_def Let_def)
    next
      case None
      have i3: "emitter_inv (em2\<lparr>em_listeners := setmap_remove k (em_listeners em2), em_size := z\<rparr>)"
        for z by (rule inv_remove_key [OF i2]) (simp_all add: l2)
      have "emitter_inv (run_hook OnDidRemoveLastListener
                (em2\<lparr>em_listeners := setmap_remove k (em_listeners em2), em_size := z\<rparr>))
              = emitter_inv (em2\<lparr>em_listeners := setmap_remove k (em_listeners em2), em_size := z\<rparr>)"
        for z by (rule inv_fields) simp_all
      with i3 None \<open>(if no_event ev then None else ev) = Some k\<close> live d show ?thesis
        by (simp add: clear_def Let_def)
    qed
  qed
qed

lemma inv_dispose: "emitter_inv em \<Longrightarrow> emitter_inv (snd (dispose em))"
proof -
  assume inv: "emitter_inv em"
  obtain st fx where s: "store_dispose (em_disposables em) = (st, fx)"
    by (cases "store_dispose (em_disposables em)")
  let ?em1 = "emit fx (em\<lparr>em_disposables := st\<rparr>)"
  have "emitter_inv ?em1 = emitter_inv em" by (rule inv_fields) simp_all
  with inv have i1: "emitter_inv ?em1" by simp
  obtain r em2 where d: "dispose_values (setmap_values (em_listeners ?em1)) ?em1 = (r, em2)"
    by (cases "dispose_values (setmap_values (em_listeners ?em1)) ?em1")
  from inv_dispose_values [of "setmap_values (em_listeners ?em1)" ?em1] d i1
  have i2: "emitter_inv em2" by simp
  show ?thesis
  proof (cases "em_disposed em")
    case True
    with inv show ?thesis by (simp add: dispose_def)
  next
    case False
    with s d i2 show ?thesis
      by (cases r) (simp_all add: dispose_def Let_def emitter_inv_def registered_def)
  qed
qed

lemma get_subset_values: "set (setmap_get k m) \<subseteq> set (setmap_values m)"
  by (induction m) (auto simp: setmap_get_def)

lemma inv_deliver:
  assumes inv: "emitter_inv em"
  shows "emitter_inv (snd (deliver c args em))"
proof (cases "em_disposed em")
  case True
  with inv show ?thesis by (simp add: deliver_def)
next
  case live: False
  obtain r e' fx where ec: "ev_call args (uc_value c) = (r, e', fx)"
    by (cases "ev_call args (uc_value c)")
  let ?em1 = "emit fx (em\<lparr>em_listeners := update_event (uc_id c) e' (em_listeners em)\<rparr>)"
  have "emitter_inv ?em1 = emitter_inv (em\<lparr>em_listeners := update_event (uc_id c) e' (em_listeners em)\<rparr>)"
    by (rule inv_fields) simp_all
  with inv have inv1: "emitter_inv ?em1" by (simp add: inv_update_event)
  have inv2: "emitter_inv (emit w ?em1)" for w
    using inv1 inv_fields [of "emit w ?em1" ?em1] by simp
  show ?thesis
  proof (cases r)
    case None
    with live ec inv1 show ?thesis by (simp add: deliver_def)
  next
    case (Some err)
    with live ec inv1 inv2 show ?thesis
      by (simp add: deliver_def Let_def inv_removeUniqueListener)
  qed
qed

lemma inv_deliver_loop:
  "emitter_inv em \<Longrightarrow> emitter_inv (snd (deliver_loop k args ids em))"
proof (induction ids arbitrary: em)
  case Nil
  then show ?case by simp
next
  case (Cons i ids)
  show ?case
  proof (cases "find (\<lambda>c. uc_id c = i) (setmap_get k (em_listeners em))")
    case None
    with Cons show ?thesis by simp
  next
    case (Some c)
    obtain r em' where d: "deliver c args em = (r, em')" by (cases "deliver c args em")
    from inv_deliver [OF Cons.prems, of c args] d have "emitter_inv em'" by simp
    with Cons.IH [of em'] Some d show ?thesis by (cases r) simp_all
  qed
qed

lemma inv_fire: "emitter_inv em \<Longrightarrow> emitter_inv (snd (fire k args em))"
proof -
  assume inv: "emitter_inv em"
  let ?em1 = "em\<lparr>em_perfMonitor := map_option (pf_start (em_size em)) (em_perfMonitor em)\<rparr>"
  have "emitter_inv ?em1 = emitter_inv em" by (rule inv_fields) simp_all
  with inv have i1: "emitter_inv ?em1" by simp
  have p: "emitter_inv (x\<lparr>em_perfMonitor := y\<rparr>) = emitter_inv x" for x y
    by (rule inv_fields) simp_all
  obtain r em2 where d:
    "deliver_loop k args (map uc_id (setmap_get k (em_listeners ?em1))) ?em1 = (r, em2)"
    by (cases "deliver_loop k args (map uc_id (setmap_get k (em_listeners ?em1))) ?em1")
  from inv_deliver_loop [OF i1, of k args "map uc_id (setmap_get k (em_listeners ?em1))"] d
  have i2: "emitter_inv em2" by simp
  show ?thesis
  proof (cases "em_disposed em")
    case True
    with inv show ?thesis by (simp add: fire_def)
  next
    case False
    show ?thesis
    proof (cases "em_size em > 0")
      case True
      with False d i2 show ?thesis
        by (cases r) (simp_all add: fire_def Let_def p)
    next
      case no: False
      with False i1 show ?thesis by (simp add: fire_def Let_def p)
    qed
  qed
qed

text \<open>
  Every public operation keeps the invariant, whether it returns or throws, so every
  emitter that a sequence of operations reaches from a new one has it.
\<close>

lemma inv_step: "emitter_inv em \<Longrightarrow> emitter_inv (step em op)"
  by (cases op)
     (simp_all add: on_def once_def inv_addListener inv_off inv_fire inv_clear
        inv_handle_dispose inv_dispose)

lemma inv_run: "emitter_inv em \<Longrightarrow> emitter_inv (run ops em)"
  unfolding run_def by (induction ops arbitrary: em) (simp_all add: inv_step)

lemma inv_new_Emitter: "emitter_inv (new_Emitter opts name uci)"
  by (simp add: emitter_inv_def registered_def new_Emitter_def)

lemmas emitter_eval =
  run_def on_def once_def off_def addListener_def checkLeakageBeforeAdd_def leakage_gate_def
  new_Emitter_def new_LeakageMonitor_def new_Profiling_def new_DisposableStore_def
  handler_of_def emit_def run_hook_def wrap_listener_def new_Event_def
  constructor_registers_def cancelable_not_false_def once_set_def thisArg_of_def
  new_CancellationTokenSource_def removeUniqueListener_def after_removal_def
  ev_dispose_def ev_cancel_def base_dispose_def base_clear_def dispose_all_def
  store_dispose_def store_clear_def no_event_def debug_dump_def setmap_get_def
  setmap_remove_def setmap_values_def has_id_def listenersCount_def registered_def
  clear_def dispose_def fire_def deliver_def ev_call_def
  update_event_def source_requested_def cts_token_def cts_cancel_def cts_dispose_def
  new_Exception_def new_Exception_stack_def unknown_listener_def
  unknown_listener_no_event_def unknown_thrown_def dispose_iterable_def stringifies_def
  quiet_def failing_def plain_def no_options_def boom_def with_boom_def circular_def Let_def

subsection \<open>The listener count\<close>

text \<open>
  C1, at an input where the code departs from it. Register one listener that owns a
  disposable whose \<^verbatim>\<open>dispose()\<close> throws (handed over in \<^verbatim>\<open>toDisposeWithEvent\<close>), and
  release the registration handle. \<^verbatim>\<open>_removeUniqueListener\<close> deletes the container,
  calls \<^verbatim>\<open>contained.value.dispose()\<close>, which releases the disposable and rethrows what
  it threw, and so never reaches \<^verbatim>\<open>--this._state.size\<close>: the release throws, no listener
  is registered any more, and \<^verbatim>\<open>listenersCount()\<close> is still 1.
\<close>

theorem C1_count_after_throwing_release:
  "on (Text ''a'') (Raw_callback (quiet 1)) None with_boom ''s'' (new_Emitter no_options ''001'' 3)
     = (Handle None 3 (Text ''a''), trapped)
   \<and> listenersCount None trapped = 1
   \<and> map uc_id (registered trapped) = [3]
   \<and> count_agrees trapped
   \<and> \<not> count_agrees (snd (handle_dispose (Handle None 3 (Text ''a'')) trapped))
   \<and> fst (handle_dispose (Handle None 3 (Text ''a'')) trapped) = Some (Thrown ''boom'')
   \<and> em_trace (snd (handle_dispose (Handle None 3 (Text ''a'')) trapped)) = [Released 9]
   \<and> registered (snd (handle_dispose (Handle None 3 (Text ''a'')) trapped)) = []
   \<and> listenersCount None (snd (handle_dispose (Handle None 3 (Text ''a'')) trapped)) = 1
   \<and> hasListeners None (snd (handle_dispose (Handle None 3 (Text ''a'')) trapped))"
  by (simp add: trapped_def hasListeners_def count_agrees_def emitter_eval)


subsection \<open>Evaluation and trace lemmas\<close>

lemma leak_gate_eq: "leak_gate t = - ((- t) div 5)"
proof -
  have "(of_int t :: rat) * (2 / 10) = of_int t / of_int 5" by simp
  then show ?thesis unfolding leak_gate_def by (simp only: ceiling_divide_eq_div)
qed

lemmas monitor_eval =
  leak_gate_eq lm_check_def lm_cleanup_def lm_dispose_def getMostFrequentStack_def stacks_get_def

lemma reported_append [simp]: "reported (tr @ tr') = reported tr @ reported tr'"
  by (induction tr rule: reported.induct) simp_all

lemma reported_call_handler [simp]: "reported (call_handler h e # tr) = e # reported tr"
  by (cases h) simp_all

lemma trace_run_hook:
  "em_trace (run_hook h em) = em_trace em @ (if h \<in> set (eo_hooks (em_options em)) then [Hook h] else [])"
  by (simp add: run_hook_def emit_def)

lemma reported_run_hook [simp]: "reported (em_trace (run_hook h em)) = reported (em_trace em)"
  by (simp add: trace_run_hook)

text \<open>The definitions that evaluate a registration while the hooks stay symbolic.\<close>

lemmas registration_eval =
  run_def on_def once_def addListener_def checkLeakageBeforeAdd_def leakage_gate_def
  new_Emitter_def new_LeakageMonitor_def new_Profiling_def new_DisposableStore_def
  emit_def no_event_def setmap_get_def setmap_values_def has_id_def listenersCount_def
  registered_def new_Exception_def new_Exception_stack_def Let_def

lemma warnings_append [simp]: "warnings (tr @ tr') = warnings tr @ warnings tr'"
  by (induction tr rule: warnings.induct) simp_all

lemma warnings_call_handler [simp]: "warnings (call_handler h e # tr) = warnings tr"
  by (cases h) simp_all

lemma warnings_run_hook [simp]: "warnings (em_trace (run_hook h em)) = warnings (em_trace em)"
  by (simp add: trace_run_hook)

subsection \<open>Registration on a disposed emitter\<close>

text \<open>
  C10. On an emitter that has been disposed, \<^verbatim>\<open>on\<close> and \<^verbatim>\<open>once\<close> return the handle
  \<^verbatim>\<open>Disposable.None\<close> and leave the emitter exactly as it was: nothing is registered, no
  hook runs, nothing is written or reported, and nothing is thrown. \<^verbatim>\<open>listenersCount\<close> is
  0 for every key, and disposing of the returned handle does nothing to any emitter.
\<close>

theorem C10_register_on_disposed:
  "em_disposed em \<Longrightarrow>
     on k l this ao st em = (Handle_none, em)
     \<and> once k l this ao st em = (Handle_none, em)
     \<and> listenersCount ev em = 0
     \<and> handle_dispose Handle_none em' = (None, em')"
  by (simp add: on_def once_def addListener_def checkLeakageBeforeAdd_def listenersCount_def)

theorem C10_register_on_disposed_witness:
  "em_disposed (snd (dispose (snd (on (Text ''a'') (Raw_callback (quiet 1)) None plain ''s''
                                     (new_Emitter no_options ''001'' 3)))))
   \<and> on (Text ''a'') (Raw_callback (quiet 2)) None plain ''s''
        (snd (dispose (snd (on (Text ''a'') (Raw_callback (quiet 1)) None plain ''s''
                              (new_Emitter no_options ''001'' 3)))))
      = (Handle_none,
         snd (dispose (snd (on (Text ''a'') (Raw_callback (quiet 1)) None plain ''s''
                              (new_Emitter no_options ''001'' 3)))))
   \<and> em_trace (snd (dispose (snd (on (Text ''a'') (Raw_callback (quiet 1)) None plain ''s''
                                    (new_Emitter no_options ''001'' 3))))) = []"
  using C10_register_on_disposed
          [of "snd (dispose (snd (on (Text ''a'') (Raw_callback (quiet 1)) None plain ''s''
                                   (new_Emitter no_options ''001'' 3))))"
              "Text ''a''" "Raw_callback (quiet 2)" None plain "''s''"]
  by (simp add: emitter_eval)


subsection \<open>The refusal gate\<close>



subsection \<open>Seven registrations from one call site\<close>

text \<open>
  C9. With threshold 3 and seven registrations on one key that share the trace \<open>st\<close>, the
  error handler is called three times, each time with code \<^verbatim>\<open>ERR_LISTENER_LEAK\<close>: at the
  third, fifth and seventh registration, reporting the most frequent trace with counts 1,
  3 and 5; each report prints the trace \<open>st\<close>. After the seventh registration
  \<^verbatim>\<open>getMostFrequentStack()\<close> is \<open>st\<close> with count 5, and seven listeners are registered.
\<close>

theorem C9_leak_scenario:
  "reported (em_trace (seven_registrations opts name uci k st
       [(l1, t1, a1), (l2, t2, a2), (l3, t3, a3), (l4, t4, a4), (l5, t5, a5), (l6, t6, a6), (l7, t7, a7)]))
     = [new_Exception (Leak_detected name 3 1) ERR_LISTENER_LEAK,
        new_Exception (Leak_detected name 5 3) ERR_LISTENER_LEAK,
        new_Exception (Leak_detected name 7 5) ERR_LISTENER_LEAK]
   \<and> warnings (em_trace (seven_registrations opts name uci k st
       [(l1, t1, a1), (l2, t2, a2), (l3, t3, a3), (l4, t4, a4), (l5, t5, a5), (l6, t6, a6), (l7, t7, a7)]))
     = [Leak_detected name 3 1, Plain st, Leak_detected name 5 3, Plain st,
        Leak_detected name 7 5, Plain st]
   \<and> map_option getMostFrequentStack (em_leakageMonitor (seven_registrations opts name uci k st
       [(l1, t1, a1), (l2, t2, a2), (l3, t3, a3), (l4, t4, a4), (l5, t5, a5), (l6, t6, a6), (l7, t7, a7)]))
     = Some (Some (st, 5))
   \<and> listenersCount None (seven_registrations opts name uci k st
       [(l1, t1, a1), (l2, t2, a2), (l3, t3, a3), (l4, t4, a4), (l5, t5, a5), (l6, t6, a6), (l7, t7, a7)]) = 7"
  by (simp add: seven_registrations_def registration_eval monitor_eval)

theorem C9_leak_scenario_witness:
  "exception_is (last (reported (em_trace (seven_registrations no_options ''001'' 3 (Text ''k'') ''at f (x.ts:1:1)''
       (replicate 7 (Raw_callback (quiet 1), None, plain)))))) ERR_LISTENER_LEAK
   \<and> map_option getMostFrequentStack (em_leakageMonitor (seven_registrations no_options ''001'' 3 (Text ''k'') ''at f (x.ts:1:1)''
       (replicate 7 (Raw_callback (quiet 1), None, plain))))
     = Some (Some (''at f (x.ts:1:1)'', 5))"
  using C9_leak_scenario [of no_options "''001''" 3 "Text ''k''" "''at f (x.ts:1:1)''"
      "Raw_callback (quiet 1)" None plain "Raw_callback (quiet 1)" None plain
      "Raw_callback (quiet 1)" None plain "Raw_callback (quiet 1)" None plain
      "Raw_callback (quiet 1)" None plain "Raw_callback (quiet 1)" None plain
      "Raw_callback (quiet 1)" None plain]
  by (simp add: eval_nat_numeral new_Exception_def)


subsection \<open>Cancellation of a live listener\<close>

lemma ev_step_live:
  assumes "\<not> d_isDisposed e" "ev_options e = oo" "ev_listener e = l" "ev_source e \<noteq> None"
  shows "\<not> d_isDisposed (ev_step e op) \<and> ev_options (ev_step e op) = oo
         \<and> ev_listener (ev_step e op) = l \<and> ev_source (ev_step e op) \<noteq> None"
  using assms by (cases op) (auto simp add: ev_call_def ev_cancel_def Let_def)

lemma ev_run_live:
  assumes "\<not> d_isDisposed e" "ev_options e = oo" "ev_listener e = l" "ev_source e \<noteq> None"
  shows "\<not> d_isDisposed (ev_run ops e) \<and> ev_options (ev_run ops e) = oo
         \<and> ev_listener (ev_run ops e) = l \<and> ev_source (ev_run ops e) \<noteq> None"
  using assms unfolding ev_run_def
proof (induction ops arbitrary: e)
  case Nil
  then show ?case by simp
next
  case (Cons op ops)
  from ev_step_live [OF Cons.prems, of op] Cons.IH [of "ev_step e op"] show ?case by simp
qed

text \<open>
  C5. Take a Bound Listener that is cancelable and not \<^verbatim>\<open>once\<close>, and live: constructed
  and then called and cancelled any number of times, but not disposed of. Right after
  \<^verbatim>\<open>cancel()\<close>, \<^verbatim>\<open>isCancellationRequested()\<close> is true. The next \<^verbatim>\<open>$call\<close> raises neither
  \<^verbatim>\<open>ERR_RESOURCE_DISPOSED\<close> nor \<^verbatim>\<open>ERR_ONCE_WAS_CALLED_AGAIN\<close>: it replaces the source by a
  fresh one, counts the call, and invokes the callback with the token of the fresh
  source, which is not requested; its outcome is the outcome of the callback. Afterwards
  \<^verbatim>\<open>isCancellationRequested()\<close> is false again.
\<close>

theorem C5_cancel_is_consumed:
  assumes "cancelable_not_false oo" and "\<not> once_set oo"
  shows "let e = ev_cancel (ev_run ops (new_Event l oo));
             e' = e\<lparr>ev_source := Some new_CancellationTokenSource,
                    ev_callCount := ev_callCount e + 1\<rparr>
         in ev_isCancellationRequested e
            \<and> ev_call args e
                = (cb_run l args (Source_token False), e',
                   [Invoked (cb_id l) (thisArg_of oo) args (Source_token False)])
            \<and> \<not> ev_isCancellationRequested e'"
proof -
  let ?e0 = "ev_run ops (new_Event l oo)"
  have "\<not> d_isDisposed (new_Event l oo)" "ev_options (new_Event l oo) = oo"
    "ev_listener (new_Event l oo) = l" "ev_source (new_Event l oo) \<noteq> None"
    using assms(1) by (simp_all add: new_Event_def)
  from ev_run_live [OF this, of ops]
  have live: "\<not> d_isDisposed ?e0" and o: "ev_options ?e0 = oo" and li: "ev_listener ?e0 = l"
    and src: "ev_source ?e0 \<noteq> None" by simp_all
  from src obtain s where s: "ev_source ?e0 = Some s" by auto
  have req: "cts_requested (cts_cancel s)" by (simp add: cts_cancel_def)
  show ?thesis
    using live o li s req assms
    by (simp add: Let_def ev_cancel_def ev_isCancellationRequested_def source_requested_def
          ev_call_def cts_token_def new_CancellationTokenSource_def)
qed

theorem C5_cancel_is_consumed_witness:
  "ev_isCancellationRequested (ev_cancel (ev_run [Call [''x''], Cancel, Call [''y'']] (new_Event (quiet 1) None)))
   \<and> snd (snd (ev_call [''z''] (ev_cancel (ev_run [Call [''x''], Cancel, Call [''y'']] (new_Event (quiet 1) None)))))
       = [Invoked 1 None [''z''] (Source_token False)]
   \<and> fst (ev_call [''z''] (ev_cancel (ev_run [Call [''x''], Cancel, Call [''y'']] (new_Event (quiet 1) None)))) = None"
proof -
  have h: "cancelable_not_false None" "\<not> once_set None"
    by (simp_all add: cancelable_not_false_def once_set_def)
  from C5_cancel_is_consumed [OF h, of "[Call [''x''], Cancel, Call [''y'']]" "quiet 1" "[''z'']"]
  show ?thesis
    by (simp add: Let_def quiet_def thisArg_of_def)
qed


subsection \<open>The default of \<^verbatim>\<open>cancelable\<close>\<close>

lemma get_add_fresh:
  "\<not> has_id (uc_id c) (setmap_get k m) \<Longrightarrow> setmap_get k (setmap_add k c m) = setmap_get k m @ [c]"
  by (induction m) (auto simp: setmap_get_def)

lemma wrap_raw_source:
  "ev_source (wrap_listener k (Raw_callback l) this ao)
     = (if ao_cancelable ao = Some True then Some new_CancellationTokenSource else None)"
  by (auto simp add: wrap_listener_def new_Event_def cancelable_not_false_def split: option.splits)

lemma wrap_raw_call:
  "snd (snd (ev_call args (wrap_listener k (Raw_callback l) this ao)))
     = [Invoked (cb_id l) this args
          (if ao_cancelable ao = Some True then Source_token False else Token_None)]"
  by (auto simp add: wrap_listener_def new_Event_def cancelable_not_false_def ev_call_def
        once_set_def thisArg_of_def source_requested_def Let_def cts_token_def
        new_CancellationTokenSource_def split: option.splits)

lemma registered_raw:
  assumes inv: "emitter_inv em" and ok: "fst (checkLeakageBeforeAdd em)"
  shows "\<exists>c. setmap_get k (em_listeners (snd (addListener k (Raw_callback l) this ao st em)))
               = setmap_get k (em_listeners em) @ [c]
           \<and> uc_value c = wrap_listener k (Raw_callback l) this ao"
proof -
  from addListener_accepted [OF ok, of k "Raw_callback l" this ao st]
  obtain rm stk em' where r: "addListener k (Raw_callback l) this ao st em = (Handle rm (em_uci em) k, em')"
    and ls: "em_listeners em' =
               setmap_add k \<lparr>uc_id = em_uci em, uc_value = wrap_listener k (Raw_callback l) this ao,
                              uc_stack = stk\<rparr> (em_listeners em)"
    by blast
  let ?c = "\<lparr>uc_id = em_uci em, uc_value = wrap_listener k (Raw_callback l) this ao, uc_stack = stk\<rparr>"
  from inv have "\<forall>c \<in> set (setmap_values (em_listeners em)). uc_id c < em_uci em"
    by (simp add: emitter_inv_def registered_def list_all_iff)
  with get_subset_values [of k "em_listeners em"]
  have "\<not> has_id (uc_id ?c) (setmap_get k (em_listeners em))"
    by (auto simp: has_id_def)
  from get_add_fresh [OF this] r ls show ?thesis by auto
qed

text \<open>
  C7, as the code has it. An \<^verbatim>\<open>Event\<close> constructed without options, or with options that
  leave \<^verbatim>\<open>cancelable\<close> out, owns a cancellation source, and its callback is handed the
  token of that source. The listener that \<^verbatim>\<open>on\<close> or \<^verbatim>\<open>once\<close> constructs around a raw
  callback is different: \<^verbatim>\<open>_addListener\<close> passes \<^verbatim>\<open>cancelable: options?.cancelable ?? false\<close>,
  so unless the caller asks for \<^verbatim>\<open>cancelable: true\<close> the registered listener owns no source
  and its callback is handed \<^verbatim>\<open>CancellationToken.None\<close>. (The registration is taken on an
  emitter that accepts it: live and not refusing.)
\<close>

theorem C7_default_cancelable:
  "(oo = None \<or> (\<exists>opts. oo = Some opts \<and> opt_cancelable opts = None) \<longrightarrow>
      ev_source (new_Event l oo) = Some new_CancellationTokenSource
      \<and> snd (snd (ev_call args (new_Event l oo)))
          = [Invoked (cb_id l) (thisArg_of oo) args (Source_token False)])
   \<and> (emitter_inv em \<and> fst (checkLeakageBeforeAdd em) \<longrightarrow>
      (\<forall>em' \<in> {snd (on k (Raw_callback l) this ao st em), snd (once k (Raw_callback l) this ao st em)}.
         \<exists>c. setmap_get k (em_listeners em') = setmap_get k (em_listeners em) @ [c]
            \<and> ev_listener (uc_value c) = l
            \<and> ev_source (uc_value c)
                = (if ao_cancelable ao = Some True then Some new_CancellationTokenSource else None)
            \<and> snd (snd (ev_call args (uc_value c)))
                = [Invoked (cb_id l) this args
                     (if ao_cancelable ao = Some True then Source_token False else Token_None)]))"
proof -
  have a: "ev_source (new_Event l oo) = Some new_CancellationTokenSource
      \<and> snd (snd (ev_call args (new_Event l oo)))
          = [Invoked (cb_id l) (thisArg_of oo) args (Source_token False)]"
    if "oo = None \<or> (\<exists>opts. oo = Some opts \<and> opt_cancelable opts = None)"
    using that
    by (auto simp add: new_Event_def cancelable_not_false_def ev_call_def once_set_def
          source_requested_def Let_def cts_token_def new_CancellationTokenSource_def)
  have b: "\<exists>c. setmap_get k (em_listeners (snd (addListener k (Raw_callback l) this (ao\<lparr>ao_once := b\<rparr>) st em)))
                  = setmap_get k (em_listeners em) @ [c]
            \<and> ev_listener (uc_value c) = l
            \<and> ev_source (uc_value c)
                = (if ao_cancelable ao = Some True then Some new_CancellationTokenSource else None)
            \<and> snd (snd (ev_call args (uc_value c)))
                = [Invoked (cb_id l) this args
                     (if ao_cancelable ao = Some True then Source_token False else Token_None)]"
    if "emitter_inv em" "fst (checkLeakageBeforeAdd em)" for b
  proof -
    from registered_raw [OF that, of k l this "ao\<lparr>ao_once := b\<rparr>" st]
    obtain c where c: "setmap_get k (em_listeners (snd (addListener k (Raw_callback l) this (ao\<lparr>ao_once := b\<rparr>) st em)))
               = setmap_get k (em_listeners em) @ [c]"
      and v: "uc_value c = wrap_listener k (Raw_callback l) this (ao\<lparr>ao_once := b\<rparr>)" by blast
    have "ev_listener (uc_value c) = l"
      by (simp add: v wrap_listener_def new_Event_def)
    with c v wrap_raw_source [of k l this "ao\<lparr>ao_once := b\<rparr>"]
      wrap_raw_call [of args k l this "ao\<lparr>ao_once := b\<rparr>"]
    show ?thesis by auto
  qed
  from a b [of False] b [of True] show ?thesis
    by (simp add: on_def once_def)
qed


theorem C7_default_cancelable_witness:
  "ev_source (new_Event (quiet 1) None) = Some new_CancellationTokenSource
   \<and> (\<exists>c. setmap_get (Text ''a'')
             (em_listeners (snd (on (Text ''a'') (Raw_callback (quiet 1)) None plain ''s''
                                   (new_Emitter no_options ''001'' 3)))) = [c]
          \<and> ev_source (uc_value c) = None
          \<and> snd (snd (ev_call [''hello''] (uc_value c))) = [Invoked 1 None [''hello''] Token_None])"
proof -
  have h: "emitter_inv (new_Emitter no_options ''001'' 3)
           \<and> fst (checkLeakageBeforeAdd (new_Emitter no_options ''001'' 3))"
    by (simp add: inv_new_Emitter) (simp add: emitter_eval)
  have g: "setmap_get (Text ''a'') (em_listeners (new_Emitter no_options ''001'' 3)) = []"
    by (simp add: emitter_eval)
  from C7_default_cancelable [of None "quiet 1" "[''hello'']" "new_Emitter no_options ''001'' 3"
         "Text ''a''" None plain "''s''"] h
  show ?thesis
    by (auto simp add: g plain_def quiet_def)
qed

text \<open>
  The claim as the specification words it fails for the emitter: a raw callback registered
  with \<^verbatim>\<open>on\<close> and no options is called with \<^verbatim>\<open>CancellationToken.None\<close>.
\<close>

theorem C7_counterexample:
  "em_trace (snd (fire (Text ''a'') [''hello'']
       (snd (on (Text ''a'') (Raw_callback (quiet 1)) None plain ''s''
               (new_Emitter no_options ''001'' 3)))))
     = [Invoked 1 None [''hello''] Token_None]"
  by (simp add: emitter_eval)


subsection \<open>Releasing twice\<close>

subsection \<open>Releasing twice\<close>

lemma store_dispose_twice: "store_dispose (fst (store_dispose s)) = (fst (store_dispose s), [])"
  by (simp add: store_dispose_def store_clear_def)

lemma base_dispose_latched: "d_isDisposed (fst (snd (base_dispose d)))"
  by (simp add: base_dispose_def base_clear_def split: prod.splits option.splits)

lemma base_dispose_twice:
  "base_dispose (fst (snd (base_dispose d))) = (None, fst (snd (base_dispose d)), [])"
  using base_dispose_latched [of d] by (simp add: base_dispose_def)

lemma ev_dispose_latched: "d_isDisposed (fst (snd (ev_dispose e)))"
  by (simp add: ev_dispose_def Let_def base_dispose_latched)

lemma ev_dispose_twice:
  "ev_dispose (fst (snd (ev_dispose e))) = (None, fst (snd (ev_dispose e)), [])"
  using ev_dispose_latched [of e]
  by (simp add: ev_dispose_def [of "fst (snd (ev_dispose e))"] ev_cancel_def base_dispose_def Let_def)

lemma dispose_twice:
  "fst (dispose em) = None \<Longrightarrow> dispose (snd (dispose em)) = (None, snd (dispose em))"
  by (auto simp add: dispose_def Let_def split: prod.splits option.splits if_splits)

lemma removal_search_absent:
  assumes "distinct (map uc_id (setmap_values m))" and "cid \<notin> uc_id ` set (setmap_values m)"
  shows "fst (removal_search cid ev m) = None"
proof (cases "removal_search cid ev m")
  case (Pair r m')
  show ?thesis
  proof (cases r)
    case None
    with Pair show ?thesis by simp
  next
    case (Some c)
    with Pair removal_search_Some [OF _ assms(1), of cid ev c m']
    have "mset (setmap_values m) = add_mset c (mset (setmap_values m'))" and "uc_id c = cid"
      by simp_all
    then have "c \<in> set (setmap_values m)" by (metis mset_eq_setD set_mset_mset union_single_eq_member)
    with \<open>uc_id c = cid\<close> assms(2) show ?thesis by auto
  qed
qed

lemma removeUniqueListener_monitor [simp]:
  "em_leakageMonitor (snd (removeUniqueListener cid ev em)) = em_leakageMonitor em"
  by (auto simp add: removeUniqueListener_def Let_def split: option.splits prod.splits)

text \<open>The debug block throws exactly when a container that is left does not serialise.\<close>

lemma dump_entries_result:
  "fst (dump_entries i cs) = (if list_all stringifies cs then None else Some (Thrown ''TypeError''))"
  by (induction cs arbitrary: i) (simp_all add: split_beta)

lemma debug_dump_result:
  "fst (debug_dump em)
     = (if \<not> eo_noDebug (em_options em) \<and> \<not> list_all stringifies (registered em)
        then Some (Thrown ''TypeError'') else None)"
  by (simp add: debug_dump_def registered_def dump_entries_result Let_def split_beta)

lemma removeUniqueListener_absent:
  assumes inv: "emitter_inv em" and live: "\<not> em_disposed em"
    and absent: "em_size em = 0 \<or> cid \<notin> uc_id ` set (registered em)"
  shows "\<exists>em2. removeUniqueListener cid (Some k) em
              = (if em_size em = 0 then None else Some (unknown_raised k em), em2)
           \<and> registered em2 = registered em \<and> em_size em2 = em_size em
           \<and> em_options em2 = em_options em \<and> \<not> em_disposed em2"
proof (cases "em_size em = 0")
  case True
  with live show ?thesis
    by (simp add: removeUniqueListener_empty registered_def)
next
  case False
  obtain r m' where s: "removal_search cid (Some k) (em_listeners em) = (r, m')"
    by (cases "removal_search cid (Some k) (em_listeners em)")
  from inv have "distinct (map uc_id (setmap_values (em_listeners em)))"
    by (simp add: emitter_inv_def registered_def)
  from removal_search_absent [OF this, of cid "Some k"] absent False s have r: "r = None"
    by (simp add: registered_def)
  with s have v: "setmap_values m' = setmap_values (em_listeners em)"
    by (simp add: removal_search_None)
  let ?em1 = "(run_hook OnWillRemoveListener em)\<lparr>em_listeners := m'\<rparr>"
  have d: "fst (debug_dump ?em1) = fst (debug_dump em)"
    by (simp add: debug_dump_result registered_def v)
  from removeUniqueListener_missing [OF live False] s r
  have "removeUniqueListener cid (Some k) em
          = unknown_thrown (if no_event (Some k) then unknown_listener_no_event else unknown_listener) ?em1"
    by simp
  then have "removeUniqueListener cid (Some k) em
          = (fst (unknown_thrown (if no_event (Some k) then unknown_listener_no_event else unknown_listener) ?em1),
             snd (unknown_thrown (if no_event (Some k) then unknown_listener_no_event else unknown_listener) ?em1))"
    by simp
  with False v live d show ?thesis
    by (auto simp add: unknown_thrown_result debug_dump_result unknown_raised_def registered_def
          no_event_def)
qed

lemma removeUniqueListener_present:
  assumes inv: "emitter_inv em"
    and found: "find (\<lambda>c. uc_id c = cid) (setmap_get k (em_listeners em)) = Some c"
    and first: "removeUniqueListener cid (Some k) em = (None, em1)"
  shows "emitter_inv em1 \<and> \<not> em_disposed em1
         \<and> (em_size em1 = 0 \<or> cid \<notin> uc_id ` set (registered em1))"
proof -
  from found have "c \<in> set (setmap_get k (em_listeners em))"
    by (auto simp: find_Some_iff)
  with get_subset_values have cin: "c \<in> set (setmap_values (em_listeners em))" by blast
  with inv have live: "\<not> em_disposed em"
    by (auto simp add: emitter_inv_def registered_def)
  from inv_removeUniqueListener [OF inv, of cid "Some k"] first have i1: "emitter_inv em1"
    by simp
  show ?thesis
  proof (cases "em_size em = 0")
    case True
    with live first have "em1 = run_hook OnWillRemoveListener em"
      by (simp add: removeUniqueListener_empty)
    with True live i1 show ?thesis by simp
  next
    case ne: False
    from inv have di: "distinct (map uc_id (setmap_values (em_listeners em)))"
      by (simp add: emitter_inv_def registered_def)
    obtain r m' where s: "removal_search cid (Some k) (em_listeners em) = (r, m')"
      by (cases "removal_search cid (Some k) (em_listeners em)")
    let ?em0 = "(run_hook OnWillRemoveListener em)\<lparr>em_listeners := m'\<rparr>"
    have "r \<noteq> None"
    proof
      assume "r = None"
      with removeUniqueListener_missing [OF live ne, of cid "Some k" m'] s first
      have "unknown_thrown (if no_event (Some k) then unknown_listener_no_event else unknown_listener) ?em0
              = (None, em1)"
        by simp
      then have "fst (unknown_thrown (if no_event (Some k) then unknown_listener_no_event else unknown_listener) ?em0) = None"
        by (simp only: fst_conv)
      then show False by (simp add: unknown_thrown_result)
    qed
    then obtain c' where r: "r = Some c'" by auto
    from removeUniqueListener_found [OF live ne] s r first
    have em1: "after_removal c' ?em0 = (None, em1)" by simp
    then have l1: "em_listeners em1 = m'" and d1: "em_disposed em1 = em_disposed em"
      using after_removal_fields(1,3) [of c' ?em0] by simp_all
    from removal_search_Some [OF _ di] s r
    have ms: "mset (setmap_values (em_listeners em)) = add_mset c' (mset (setmap_values m'))"
      and idc: "uc_id c' = cid" by simp_all
    from removed_ids(4) [OF ms di] idc have "cid \<notin> uc_id ` set (setmap_values m')" by simp
    with i1 live l1 d1 show ?thesis by (simp add: registered_def)
  qed
qed

lemma inv_monitor_update [simp]: "emitter_inv (em\<lparr>em_leakageMonitor := x\<rparr>) = emitter_inv em"
  by (rule inv_fields) simp_all

lemma lm_cleanup_allocated:
  "lm_stacks m \<noteq> None \<Longrightarrow> fst (lm_cleanup st m) = None \<and> lm_stacks (snd (lm_cleanup st m)) \<noteq> None"
  by (auto simp add: lm_cleanup_def)

lemma lm_cleanup_returned:
  "lm_cleanup st m = (None, m') \<Longrightarrow> lm_stacks m' \<noteq> None"
  by (auto simp add: lm_cleanup_def split: option.splits)

lemma unknown_raised_fields:
  "em_options a = em_options b \<Longrightarrow> em_listeners a = em_listeners b
     \<Longrightarrow> unknown_raised k a = unknown_raised k b"
  by (simp add: unknown_raised_def registered_def)

lemma second_release:
  assumes inv: "emitter_inv em"
    and found: "find (\<lambda>c. uc_id c = cid) (setmap_get k (em_listeners em)) = Some c"
    and first: "handle_dispose (Handle rm cid k) em = (None, em1)"
  shows "\<exists>em2. handle_dispose (Handle rm cid k) em1
              = (if em_size em1 = 0 then None else Some (unknown_raised k em1), em2)
           \<and> registered em2 = registered em1
           \<and> listenersCount None em2 = listenersCount None em1"
proof -
  have count: "listenersCount None a = listenersCount None b"
    if "em_size a = em_size b" "em_disposed a = em_disposed b" for a b
    using that by (simp add: listenersCount_def)
  consider (plain) "rm = None \<or> em_leakageMonitor em = None"
    | (cleanup) st m where "rm = Some st" "em_leakageMonitor em = Some m"
    by (cases rm; cases "em_leakageMonitor em") auto
  then show ?thesis
  proof cases
    case plain
    then have h: "handle_dispose (Handle rm cid k) x = removeUniqueListener cid (Some k) x"
      if "em_leakageMonitor x = em_leakageMonitor em" for x
      using that by (cases rm) auto
    from first h [of em] have f: "removeUniqueListener cid (Some k) em = (None, em1)" by simp
    from removeUniqueListener_present [OF inv found f]
    have i1: "emitter_inv em1" and l1: "\<not> em_disposed em1"
      and a1: "em_size em1 = 0 \<or> cid \<notin> uc_id ` set (registered em1)" by simp_all
    from f have "em_leakageMonitor em1 = em_leakageMonitor em"
      using removeUniqueListener_monitor [of cid "Some k" em] by simp
    from h [OF this] removeUniqueListener_absent [OF i1 l1 a1, of k] count l1
    show ?thesis by (metis (no_types, lifting))
  next
    case cleanup
    obtain r m' where c: "lm_cleanup st m = (r, m')" by (cases "lm_cleanup st m")
    from first cleanup c have r: "r = None" by (cases r) auto
    let ?em = "em\<lparr>em_leakageMonitor := Some m'\<rparr>"
    from first cleanup c r have f: "removeUniqueListener cid (Some k) ?em = (None, em1)" by simp
    from inv have i0: "emitter_inv ?em" by simp
    from found have f0: "find (\<lambda>c. uc_id c = cid) (setmap_get k (em_listeners ?em)) = Some c"
      by simp
    from removeUniqueListener_present [OF i0 f0 f]
    have i1: "emitter_inv em1" and l1: "\<not> em_disposed em1"
      and a1: "em_size em1 = 0 \<or> cid \<notin> uc_id ` set (registered em1)" by simp_all
    from f have m1: "em_leakageMonitor em1 = Some m'"
      using removeUniqueListener_monitor [of cid "Some k" ?em] by simp
    from c r have "lm_stacks m' \<noteq> None" by (simp add: lm_cleanup_returned)
    from lm_cleanup_allocated [OF this, of st]
    obtain m'' where c2: "lm_cleanup st m' = (None, m'')" by (cases "lm_cleanup st m'") auto
    let ?em1 = "em1\<lparr>em_leakageMonitor := Some m''\<rparr>"
    have h: "handle_dispose (Handle rm cid k) em1 = removeUniqueListener cid (Some k) ?em1"
      using cleanup(1) m1 c2 by simp
    from i1 have i1': "emitter_inv ?em1" by simp
    from l1 have l1': "\<not> em_disposed ?em1" by simp
    from a1 have a1': "em_size ?em1 = 0 \<or> cid \<notin> uc_id ` set (registered ?em1)"
      by (simp add: registered_def)
    have u: "unknown_raised k ?em1 = unknown_raised k em1"
      by (rule unknown_raised_fields) simp_all
    from removeUniqueListener_absent [OF i1' l1' a1', of k]
    obtain em2 where "removeUniqueListener cid (Some k) ?em1
              = (if em_size ?em1 = 0 then None else Some (unknown_raised k ?em1), em2)"
      and "registered em2 = registered ?em1" and "em_size em2 = em_size ?em1"
      and "\<not> em_disposed em2" by blast
    with h l1 u count [of em2 em1] show ?thesis
      by (auto simp add: registered_def)
  qed
qed

text \<open>
  C2, as the code has it. The classes that keep a disposed flag and set it first
  (\<^verbatim>\<open>DisposableStore\<close>, \<^verbatim>\<open>Disposable.Disposable\<close>, \<^verbatim>\<open>Event\<close>) are idempotent: a second
  \<^verbatim>\<open>dispose()\<close> returns, changes nothing and has no effect, so no child is released
  again; so is the \<^verbatim>\<open>Emitter\<close>, which sets its flag last, after a \<^verbatim>\<open>dispose()\<close> that
  returned. The registration handle of \<^verbatim>\<open>on\<close> and \<^verbatim>\<open>once\<close> is a bare \<^verbatim>\<open>toDisposable\<close>
  closure without such a flag. Take an emitter in a consistent state and a handle whose
  listener is registered, and let its first release return normally. The second release
  runs \<^verbatim>\<open>_removeUniqueListener\<close> again: the registry and the listener count stay as they
  are, and the call returns normally only if the count is 0. Otherwise it throws: the
  exception \<^verbatim>\<open>Attempted to dispose an unknown listener\<close> (with
  \<^verbatim>\<open>(no event provided)\<close> appended when the key is the empty string), or, when
  \<^verbatim>\<open>noDebug\<close> is not set and a listener that is left does not serialise, the
  \<^verbatim>\<open>TypeError\<close> that \<^verbatim>\<open>JSON.stringify\<close> raises in the debug block before that.
\<close>

theorem C2_repeated_release:
  "store_dispose (fst (store_dispose s)) = (fst (store_dispose s), [])
   \<and> base_dispose (fst (snd (base_dispose d))) = (None, fst (snd (base_dispose d)), [])
   \<and> ev_dispose (fst (snd (ev_dispose e))) = (None, fst (snd (ev_dispose e)), [])
   \<and> (fst (dispose em') = None \<longrightarrow> dispose (snd (dispose em')) = (None, snd (dispose em')))
   \<and> (emitter_inv em
        \<and> find (\<lambda>c. uc_id c = cid) (setmap_get k (em_listeners em)) = Some c
        \<and> handle_dispose (Handle rm cid k) em = (None, em1) \<longrightarrow>
      (\<exists>em2. handle_dispose (Handle rm cid k) em1
              = (if em_size em1 = 0 then None
                 else Some (if \<not> eo_noDebug (em_options em1)
                               \<and> \<not> list_all stringifies (registered em1)
                            then Thrown ''TypeError''
                            else if k = Text [] then unknown_listener_no_event
                            else unknown_listener), em2)
           \<and> registered em2 = registered em1
           \<and> listenersCount None em2 = listenersCount None em1))"
proof -
  have a: "store_dispose (fst (store_dispose s)) = (fst (store_dispose s), [])
     \<and> base_dispose (fst (snd (base_dispose d))) = (None, fst (snd (base_dispose d)), [])
     \<and> ev_dispose (fst (snd (ev_dispose e))) = (None, fst (snd (ev_dispose e)), [])
     \<and> (fst (dispose em') = None \<longrightarrow> dispose (snd (dispose em')) = (None, snd (dispose em')))"
    by (simp add: store_dispose_twice base_dispose_twice ev_dispose_twice dispose_twice)
  have b: "emitter_inv em
        \<and> find (\<lambda>c. uc_id c = cid) (setmap_get k (em_listeners em)) = Some c
        \<and> handle_dispose (Handle rm cid k) em = (None, em1) \<longrightarrow>
      (\<exists>em2. handle_dispose (Handle rm cid k) em1
              = (if em_size em1 = 0 then None else Some (unknown_raised k em1), em2)
           \<and> registered em2 = registered em1
           \<and> listenersCount None em2 = listenersCount None em1)"
    using second_release [of em cid k c rm em1] by blast
  from a b show ?thesis unfolding unknown_raised_def by blast
qed

theorem C2_repeated_release_witness:
  "emitter_inv two_listeners
   \<and> map uc_id (setmap_get (Text ''a'') (em_listeners two_listeners)) = [3, 4]
   \<and> (\<exists>em2. handle_dispose (Handle None 3 (Text ''a''))
                (snd (handle_dispose (Handle None 3 (Text ''a'')) two_listeners))
              = (Some unknown_listener, em2)
           \<and> map uc_id (registered em2) = [4]
           \<and> listenersCount None em2 = 1)
   \<and> (\<exists>em2. handle_dispose (Handle None 3 (Text ''a''))
                (snd (handle_dispose (Handle None 3 (Text ''a'')) two_listeners_circular))
              = (Some (Thrown ''TypeError''), em2)
           \<and> map uc_id (registered em2) = [4]
           \<and> listenersCount None em2 = 1)"
proof -
  have 1: "\<exists>em2. handle_dispose (Handle None 3 (Text ''a'')) (snd (handle_dispose (Handle None 3 (Text ''a'')) em))
              = (Some (if \<not> list_all stringifies (registered em1) then Thrown ''TypeError''
                       else unknown_listener), em2)
           \<and> map uc_id (registered em2) = [4]
           \<and> listenersCount None em2 = 1"
    if i: "emitter_inv em"
      and f: "find (\<lambda>c. uc_id c = 3) (setmap_get (Text ''a'') (em_listeners em)) = Some c"
      and d: "handle_dispose (Handle None 3 (Text ''a'')) em = (None, em1)"
      and r1: "map uc_id (registered em1) = [4]" and s1: "em_size em1 = 1"
      and l1: "listenersCount None em1 = 1" and n1: "\<not> eo_noDebug (em_options em1)"
    for em em1 c
  proof -
    from C2_repeated_release [of _ _ _ _ em 3 "Text ''a''" c None em1] i f d
    obtain em2 where "handle_dispose (Handle None 3 (Text ''a'')) em1
              = (if em_size em1 = 0 then None
                 else Some (if \<not> eo_noDebug (em_options em1)
                               \<and> \<not> list_all stringifies (registered em1)
                            then Thrown ''TypeError''
                            else if Text ''a'' = Text [] then unknown_listener_no_event
                            else unknown_listener), em2)"
      and "registered em2 = registered em1" and "listenersCount None em2 = listenersCount None em1"
      by blast
    with d r1 s1 l1 n1 show ?thesis by simp
  qed
  have i: "emitter_inv two_listeners" "emitter_inv two_listeners_circular"
    unfolding two_listeners_def two_listeners_circular_def
    by (rule inv_run [OF inv_new_Emitter])+
  have g: "map uc_id (setmap_get (Text ''a'') (em_listeners two_listeners)) = [3, 4]"
    by (simp add: two_listeners_def emitter_eval)
  obtain c where f: "find (\<lambda>c. uc_id c = 3) (setmap_get (Text ''a'') (em_listeners two_listeners)) = Some c"
    by (simp add: two_listeners_def emitter_eval)
  obtain em1 where d: "handle_dispose (Handle None 3 (Text ''a'')) two_listeners = (None, em1)"
    and r1: "map uc_id (registered em1) = [4]" and s1: "em_size em1 = 1"
    and l1: "listenersCount None em1 = 1" and n1: "\<not> eo_noDebug (em_options em1)"
    and z1: "list_all stringifies (registered em1)"
    by (simp add: two_listeners_def emitter_eval)
  obtain c' where f': "find (\<lambda>c. uc_id c = 3) (setmap_get (Text ''a'') (em_listeners two_listeners_circular)) = Some c'"
    by (simp add: two_listeners_circular_def emitter_eval)
  obtain em1' where d': "handle_dispose (Handle None 3 (Text ''a'')) two_listeners_circular = (None, em1')"
    and r1': "map uc_id (registered em1') = [4]" and s1': "em_size em1' = 1"
    and l1': "listenersCount None em1' = 1" and n1': "\<not> eo_noDebug (em_options em1')"
    and z1': "\<not> list_all stringifies (registered em1')"
    by (simp add: two_listeners_circular_def emitter_eval)
  from 1 [OF i(1) f d r1 s1 l1 n1] 1 [OF i(2) f' d' r1' s1' l1' n1'] i g z1 z1'
  show ?thesis by simp
qed

text \<open>
  The claim as the specification words it fails for a registration handle: with two
  listeners registered, the handle of the first (container 3 under key \<open>a\<close>) is released
  normally once, and the second release throws.
\<close>

theorem C2_counterexample:
  "fst (on (Text ''a'') (Raw_callback (quiet 1)) None plain ''s'' (new_Emitter no_options ''001'' 3))
     = Handle None 3 (Text ''a'')
   \<and> fst (handle_dispose (Handle None 3 (Text ''a'')) two_listeners) = None
   \<and> fst (handle_dispose (Handle None 3 (Text ''a''))
            (snd (handle_dispose (Handle None 3 (Text ''a'')) two_listeners)))
       = Some unknown_listener"
  by (simp add: two_listeners_def emitter_eval)


subsection \<open>Firing\<close>

text \<open>
  C4, at an input where the code departs from it. A \<^verbatim>\<open>once\<close> listener that owns a
  disposable whose \<^verbatim>\<open>dispose()\<close> throws and a second listener are registered on one key,
  and the key has been fired once, so both callbacks have run. At the next \<^verbatim>\<open>fire\<close> the
  \<^verbatim>\<open>$call\<close> of the first listener raises \<^verbatim>\<open>ERR_ONCE_WAS_CALLED_AGAIN\<close>; \<^verbatim>\<open>_deliver\<close>
  catches it and calls \<^verbatim>\<open>_removeUniqueListener\<close>, which deletes the container and
  disposes of the listener. The disposable throws, and nothing on the way catches that:
  the value leaves \<^verbatim>\<open>fire\<close>. The second listener is not called in this firing, the error
  handler is not called, and the count stays 2 with one listener registered.
\<close>

theorem C4_fire_throws:
  "invocations (em_trace trapped_once)
     = [Invoked 1 None [''x''] Token_None, Invoked 2 None [''x''] Token_None]
   \<and> map uc_id (registered trapped_once) = [3, 4]
   \<and> fst (fire (Text ''a'') [''y''] trapped_once) = Some (Thrown ''boom'')
   \<and> em_trace (snd (fire (Text ''a'') [''y''] trapped_once)) = em_trace trapped_once @ [Released 9]
   \<and> map uc_id (registered (snd (fire (Text ''a'') [''y''] trapped_once))) = [4]
   \<and> listenersCount None (snd (fire (Text ''a'') [''y''] trapped_once)) = 2"
  by (simp add: trapped_once_def emitter_eval)


subsection \<open>Cancelling a cancelable promise\<close>




lemma run_append: "bridge_run (es @ es') b = bridge_run es' (bridge_run es b)"
  by (simp add: bridge_run_def)


















end
